theory Spec2Isabelle
  imports Complex_Main
begin

section \<open>Numbers and arrays\<close>

text \<open>
  A numpy float is modelled as an exact real number, one of the two infinities, or NaN.
  Rounding and overflow are not modelled, and the two signed zeros are one value. The
  operations follow IEEE 754 on the special values: NaN is absorbing, opposite infinities
  add to NaN, zero times an infinity is NaN, every comparison with NaN is false.
\<close>

datatype fl = Fin real | PInf | NInf | NaN

datatype error = ValueError | IndexError | UnboundLocalError

fun isnan :: "fl \<Rightarrow> bool" where
  "isnan NaN = True"
| "isnan _ = False"

fun isinf :: "fl \<Rightarrow> bool" where
  "isinf PInf = True"
| "isinf NInf = True"
| "isinf _ = False"

fun fneg :: "fl \<Rightarrow> fl" where
  "fneg (Fin a) = Fin (- a)"
| "fneg PInf = NInf"
| "fneg NInf = PInf"
| "fneg NaN = NaN"

fun fadd :: "fl \<Rightarrow> fl \<Rightarrow> fl" where
  "fadd NaN _ = NaN"
| "fadd _ NaN = NaN"
| "fadd (Fin a) (Fin b) = Fin (a + b)"
| "fadd PInf NInf = NaN"
| "fadd NInf PInf = NaN"
| "fadd PInf _ = PInf"
| "fadd NInf _ = NInf"
| "fadd (Fin a) PInf = PInf"
| "fadd (Fin a) NInf = NInf"

definition fsub :: "fl \<Rightarrow> fl \<Rightarrow> fl" where
  "fsub a b = fadd a (fneg b)"

definition inf_of_sign :: "real \<Rightarrow> fl" where
  "inf_of_sign s = (if s = 0 then NaN else if 0 < s then PInf else NInf)"

fun fmul :: "fl \<Rightarrow> fl \<Rightarrow> fl" where
  "fmul NaN _ = NaN"
| "fmul _ NaN = NaN"
| "fmul (Fin a) (Fin b) = Fin (a * b)"
| "fmul PInf PInf = PInf"
| "fmul PInf NInf = NInf"
| "fmul NInf PInf = NInf"
| "fmul NInf NInf = PInf"
| "fmul PInf (Fin b) = inf_of_sign b"
| "fmul NInf (Fin b) = inf_of_sign (- b)"
| "fmul (Fin a) PInf = inf_of_sign a"
| "fmul (Fin a) NInf = inf_of_sign (- a)"

text \<open>Division; a zero divisor is taken as the positive zero.\<close>

fun fdiv :: "fl \<Rightarrow> fl \<Rightarrow> fl" where
  "fdiv NaN _ = NaN"
| "fdiv _ NaN = NaN"
| "fdiv (Fin a) (Fin b) = (if b = 0 then inf_of_sign a else Fin (a / b))"
| "fdiv (Fin a) _ = Fin 0"
| "fdiv PInf (Fin b) = (if b < 0 then NInf else PInf)"
| "fdiv NInf (Fin b) = (if b < 0 then PInf else NInf)"
| "fdiv _ _ = NaN"

fun fless :: "fl \<Rightarrow> fl \<Rightarrow> bool" where
  "fless NaN _ = False"
| "fless _ NaN = False"
| "fless (Fin a) (Fin b) = (a < b)"
| "fless PInf _ = False"
| "fless _ PInf = True"
| "fless NInf NInf = False"
| "fless NInf _ = True"
| "fless (Fin a) NInf = False"

type_synonym vec = "fl list"

text \<open>
  A two-dimensional numpy array: its shape and its rows. The shape is kept beside the rows
  because an array with no rows still has a column count (\<open>data.shape\<close>, \<open>omega.size\<close>).
\<close>

record ndarray =
  shape0 :: nat
  shape1 :: nat
  rows :: "vec list"

definition wf_ndarray :: "ndarray \<Rightarrow> bool" where
  "wf_ndarray A = (length (rows A) = shape0 A \<and> list_all (\<lambda>r. length r = shape1 A) (rows A))"

definition size_nd :: "ndarray \<Rightarrow> nat" where
  "size_nd A = shape0 A * shape1 A"

definition mk_ndarray :: "nat \<Rightarrow> nat \<Rightarrow> vec list \<Rightarrow> ndarray" where
  "mk_ndarray n m rs = \<lparr>shape0 = n, shape1 = m, rows = rs\<rparr>"

text \<open>\<open>difference[np.isnan(difference)] = 0\<close>, entry by entry.\<close>

definition nan_to_zero :: "fl \<Rightarrow> fl" where
  "nan_to_zero x = (if isnan x then Fin 0 else x)"

definition fsum :: "vec \<Rightarrow> fl" where
  "fsum xs = foldr fadd xs (Fin 0)"

text \<open>The inner product of two one-dimensional arrays of one length.\<close>

definition dot :: "vec \<Rightarrow> vec \<Rightarrow> fl" where
  "dot x y = fsum (map2 fmul x y)"

definition col :: "ndarray \<Rightarrow> nat \<Rightarrow> vec" where
  "col A k = map (\<lambda>r. r ! k) (rows A)"

text \<open>\<open>A.T\<close>\<close>

definition transpose_nd :: "ndarray \<Rightarrow> ndarray" where
  "transpose_nd A = mk_ndarray (shape1 A) (shape0 A) (map (col A) [0..<shape1 A])"

text \<open>\<open>v.dot(A)\<close> for a one-dimensional \<open>v\<close> and a two-dimensional \<open>A\<close>.\<close>

definition vecmat :: "vec \<Rightarrow> ndarray \<Rightarrow> vec" where
  "vecmat v A = map (\<lambda>k. dot v (col A k)) [0..<shape1 A]"

text \<open>\<open>A.dot(v)\<close> for a two-dimensional \<open>A\<close> and a one-dimensional \<open>v\<close>.\<close>

definition matvec :: "ndarray \<Rightarrow> vec \<Rightarrow> vec" where
  "matvec A v = map (\<lambda>r. dot r v) (rows A)"

text \<open>\<open>np.dot(A, B)\<close> and \<open>einsum("ji,ik->jk", A, B)\<close> for two-dimensional arrays.\<close>

definition matmul :: "ndarray \<Rightarrow> ndarray \<Rightarrow> ndarray" where
  "matmul A B = mk_ndarray (shape0 A) (shape1 B) (map (\<lambda>r. vecmat r B) (rows A))"

section \<open>The model collaborator\<close>

text \<open>
  The fields of the classifier that the distance and the objective read:
  \<open>model.prototypes_\<close>, \<open>model.omega_\<close> and \<open>model.prototypes_labels_\<close>.
\<close>

record 'l lvq_model =
  model_prototypes :: ndarray
  model_omega :: ndarray
  model_prototypes_labels :: "'l list"

text \<open>
  Shapes that fit together: \<open>n\<close> samples and \<open>P\<close> prototypes of \<open>F\<close> features, and a
  relevance matrix with \<open>F\<close> columns. numpy raises or broadcasts on other shapes; the
  definitions below are meant for these.
\<close>

definition shapes_ok :: "ndarray \<Rightarrow> 'l lvq_model \<Rightarrow> bool" where
  "shapes_ok data model =
     (wf_ndarray data \<and> wf_ndarray (model_prototypes model) \<and> wf_ndarray (model_omega model) \<and>
      shape1 (model_prototypes model) = shape1 data \<and> shape1 (model_omega model) = shape1 data)"

section \<open>distances/adaptive_squared_nan_euclidean.py\<close>

text \<open>\<open>_adaptive_squared_nan_euclidean(sample, prototype, lambda_matrix)\<close>\<close>

definition adaptive_squared_nan_euclidean :: "vec \<Rightarrow> vec \<Rightarrow> ndarray \<Rightarrow> fl" where
  "adaptive_squared_nan_euclidean sample prototype lambda_matrix =
     (let difference = map nan_to_zero (map2 fsub sample prototype)
      in dot (vecmat difference lambda_matrix) difference)"

text \<open>
  \<open>sklearn.metrics.pairwise_distances(X, Y, metric=callable, force_all_finite="allow-nan")\<close>:
  both arrays are validated (an infinity, an empty array or differing feature counts raise
  ValueError, NaN is accepted), then the callable is applied to every pair of rows.
\<close>

definition check_array_allow_nan :: "ndarray \<Rightarrow> bool" where
  "check_array_allow_nan A =
     (0 < shape0 A \<and> 0 < shape1 A \<and> list_all (list_all (\<lambda>x. \<not> isinf x)) (rows A))"

definition pairwise_distances :: "ndarray \<Rightarrow> ndarray \<Rightarrow> (vec \<Rightarrow> vec \<Rightarrow> fl) \<Rightarrow> error + ndarray" where
  "pairwise_distances X Y metric =
     (if check_array_allow_nan X \<and> check_array_allow_nan Y \<and> shape1 X = shape1 Y
      then Inr (mk_ndarray (shape0 X) (shape0 Y) (map (\<lambda>x. map (\<lambda>y. metric x y) (rows Y)) (rows X)))
      else Inl ValueError)"

text \<open>\<open>lambda_matrix = model.omega_.T.dot(model.omega_)\<close>\<close>

definition lambda_of :: "ndarray \<Rightarrow> ndarray" where
  "lambda_of omega = matmul (transpose_nd omega) omega"

text \<open>\<open>array ** 2\<close>\<close>

definition power2_nd :: "ndarray \<Rightarrow> ndarray" where
  "power2_nd A = A\<lparr>rows := map (map (\<lambda>d. fmul d d)) (rows A)\<rparr>"

text \<open>\<open>AdaptiveSquaredNanEuclidean.__call__(data, model)\<close>\<close>

definition ASNE_call :: "ndarray \<Rightarrow> 'l lvq_model \<Rightarrow> error + ndarray" where
  "ASNE_call data model =
     (case pairwise_distances data (model_prototypes model)
             (\<lambda>sample prototype.
                adaptive_squared_nan_euclidean sample prototype (lambda_of (model_omega model))) of
        Inl e \<Rightarrow> Inl e
      | Inr D \<Rightarrow> Inr (power2_nd D))"

text \<open>
  Modelled from the spec: \<open>model.get_model_params()\<close> of the classifier, which is not
  among the sources; it returns the structured parameter set, the prototype matrix and the
  relevance matrix.
\<close>

definition get_model_params :: "'l lvq_model \<Rightarrow> ndarray \<times> ndarray" where
  "get_model_params model = (model_prototypes model, model_omega model)"

text \<open>\<open>np.zeros((n, m))\<close>\<close>

definition zeros :: "nat \<Rightarrow> nat \<Rightarrow> ndarray" where
  "zeros n m = mk_ndarray n m (replicate n (replicate m (Fin 0)))"

text \<open>
  \<open>A[:, start:stop] = B\<close> where \<open>B\<close> has the rows of \<open>A\<close> and \<open>stop - start\<close> columns
  inside \<open>A\<close>.
\<close>

definition assign_slice :: "vec \<Rightarrow> nat \<Rightarrow> nat \<Rightarrow> vec \<Rightarrow> vec" where
  "assign_slice row start stop vals = take start row @ vals @ drop stop row"

definition assign_columns :: "ndarray \<Rightarrow> nat \<Rightarrow> nat \<Rightarrow> vec list \<Rightarrow> ndarray" where
  "assign_columns A start stop B =
     A\<lparr>rows := map2 (\<lambda>row vals. assign_slice row start stop vals) (rows A) B\<rparr>"

text \<open>\<open>data - prototype\<close> followed by \<open>difference[np.isnan(difference)] = 0\<close>\<close>

definition masked_difference :: "vec \<Rightarrow> vec \<Rightarrow> vec" where
  "masked_difference x prototype = map nan_to_zero (map2 fsub x prototype)"

text \<open>\<open>_prototype_gradient(data, prototype, omega)\<close>\<close>

definition prototype_gradient :: "ndarray \<Rightarrow> vec \<Rightarrow> ndarray \<Rightarrow> ndarray" where
  "prototype_gradient data prototype omega =
     (let difference =
            map (\<lambda>x. map nan_to_zero (map (fmul (Fin (- 2))) (map2 fsub x prototype))) (rows data)
      in matmul (mk_ndarray (shape0 data) (shape1 data) difference) (lambda_of omega))"

text \<open>
  \<open>_omega_gradient(data, prototype, omega)\<close>: a three-dimensional array, one
  \<open>omega\<close>-shaped array per sample, with
  \<open>result[j, i, k] = scaled_omega[i, j] * (2 * difference)[j, k]\<close>.
\<close>

definition omega_gradient :: "ndarray \<Rightarrow> vec \<Rightarrow> ndarray \<Rightarrow> ndarray list" where
  "omega_gradient data prototype omega =
     (let difference =
            mk_ndarray (shape0 data) (shape1 data)
              (map (\<lambda>x. masked_difference x prototype) (rows data));
          scaled_omega = matmul omega (transpose_nd difference)
      in map (\<lambda>j. mk_ndarray (shape0 omega) (shape1 difference)
                     (map (\<lambda>i. map (\<lambda>k. fmul (rows scaled_omega ! i ! j)
                                              (fmul (Fin 2) (rows difference ! j ! k)))
                                    [0..<shape1 difference])
                          [0..<shape0 omega]))
             [0..<shape0 data])"

text \<open>\<open>array3.reshape(num_samples, m)\<close>: each sample's array flattened row by row.\<close>

definition reshape_rows :: "ndarray list \<Rightarrow> vec list" where
  "reshape_rows As = map (\<lambda>A. concat (rows A)) As"

text \<open>
  \<open>AdaptiveSquaredNanEuclidean.gradient(data, model, i_prototype)\<close>;
  \<open>prototypes[i_prototype, :]\<close> raises IndexError past the last prototype.
\<close>

definition ASNE_gradient :: "ndarray \<Rightarrow> 'l lvq_model \<Rightarrow> nat \<Rightarrow> error + ndarray" where
  "ASNE_gradient data model i_prototype =
     (let (prototypes, omega) = get_model_params model;
          num_samples = shape0 data;
          num_features = shape1 data;
          distance_gradient = zeros num_samples (size_nd prototypes + size_nd omega);
          ip_start = i_prototype * num_features;
          ip_end = ip_start + num_features
      in if shape0 prototypes \<le> i_prototype then Inl IndexError
         else
           let distance_gradient1 =
                 assign_columns distance_gradient ip_start ip_end
                   (rows (prototype_gradient data (rows prototypes ! i_prototype) omega));
               io_start = size_nd prototypes
           in Inr (assign_columns distance_gradient1 io_start (shape1 distance_gradient1)
                     (reshape_rows (omega_gradient data (rows prototypes ! i_prototype) omega))))"

text \<open>
  The distance the documentation of \<open>__call__\<close> and the specification give:
  \<open>(x - w)\<^sup>T \<Lambda> (x - w)\<close> with \<open>\<Lambda> = \<Omega>\<^sup>T \<Omega>\<close>, a NaN difference counting as zero.
\<close>

definition adaptive_squared_distance :: "vec \<Rightarrow> vec \<Rightarrow> ndarray \<Rightarrow> fl" where
  "adaptive_squared_distance x w omega =
     (let d = map nan_to_zero (map2 fsub x w)
      in dot d (matvec (lambda_of omega) d))"

text \<open>
  The partial derivatives as the specification derives them, for one sample \<open>x\<close> and one
  prototype \<open>w\<close>: \<open>-2 \<Lambda> (x - w)\<close> with respect to the prototype, and the outer product
  \<open>2 (\<Omega> d) d\<^sup>T\<close> with respect to \<open>\<Omega>\<close>, where \<open>d\<close> is the difference with its NaN entries
  set to zero.
\<close>

definition prototype_partial :: "vec \<Rightarrow> vec \<Rightarrow> ndarray \<Rightarrow> vec" where
  "prototype_partial x w omega =
     map (fmul (Fin (- 2))) (matvec (lambda_of omega) (masked_difference x w))"

definition omega_jacobian :: "vec \<Rightarrow> vec \<Rightarrow> ndarray \<Rightarrow> ndarray" where
  "omega_jacobian x w omega =
     (let d = masked_difference x w
      in mk_ndarray (shape0 omega) (shape1 omega)
           (map (\<lambda>r. map (\<lambda>k. fmul (Fin 2) (fmul (dot r d) (d ! k))) [0..<shape1 omega])
                (rows omega)))"

text \<open>
  One row of the gradient matrix in the flat variable layout: the slices of the prototypes
  before \<open>i\<close>, the slice of prototype \<open>i\<close>, the slices of the prototypes after it, and
  the block of \<open>\<Omega>\<close> row by row.
\<close>

definition gradient_row :: "vec \<Rightarrow> 'l lvq_model \<Rightarrow> nat \<Rightarrow> vec" where
  "gradient_row x model i =
     (let prototypes = model_prototypes model; omega = model_omega model;
          w = rows prototypes ! i
      in replicate (i * shape1 prototypes) (Fin 0)
         @ prototype_partial x w omega
         @ replicate ((shape0 prototypes - Suc i) * shape1 prototypes) (Fin 0)
         @ concat (rows (omega_jacobian x w omega)))"

text \<open>A small model with two prototypes of one feature, and one sample.\<close>

definition example_data :: ndarray where
  "example_data = mk_ndarray 1 1 [[Fin 2]]"

definition example_model :: "nat lvq_model" where
  "example_model =
     \<lparr>model_prototypes = mk_ndarray 2 1 [[Fin 0], [Fin 1]],
      model_omega = mk_ndarray 1 1 [[Fin 1]],
      model_prototypes_labels = [0, 1]\<rparr>"

text \<open>\<open>np.isfinite\<close>, and an array all of whose entries are finite.\<close>

fun isfinite :: "fl \<Rightarrow> bool" where
  "isfinite (Fin a) = True"
| "isfinite _ = False"

definition all_finite :: "ndarray \<Rightarrow> bool" where
  "all_finite A = list_all (list_all isfinite) (rows A)"

text \<open>The array \<open>A\<close> with the entry in row \<open>j\<close> and column \<open>k\<close> replaced by \<open>v\<close>.\<close>

definition set_entry :: "ndarray \<Rightarrow> nat \<Rightarrow> nat \<Rightarrow> fl \<Rightarrow> ndarray" where
  "set_entry A j k v = A\<lparr>rows := (rows A)[j := (rows A ! j)[k := v]]\<rparr>"

text \<open>One sample whose only feature is missing.\<close>

definition example_nan_data :: ndarray where
  "example_nan_data = mk_ndarray 1 1 [[NaN]]"

section \<open>activations/_identity.py\<close>

text \<open>\<open>Identity.__call__(x)\<close> and \<open>Identity.gradient(x)\<close>, which is \<open>np.ones_like(x)\<close>.\<close>

definition Identity_call :: "vec \<Rightarrow> vec" where
  "Identity_call x = x"

definition Identity_gradient :: "vec \<Rightarrow> vec" where
  "Identity_gradient x = replicate (length x) (Fin 1)"

section \<open>The relative-distance discriminant\<close>

text \<open>
  Modelled from the spec: the relative-distance discriminant, whose package
  (\<open>sklvq.discriminants\<close>) is not among the sources. The score is
  \<open>(d_same - d_diff) / (d_same + d_diff)\<close>; the gradient is the derivative of that ratio by
  the quotient rule, with respect to \<open>d_same\<close> on the same branch and to \<open>d_diff\<close>
  otherwise, and is 0 when \<open>d_same + d_diff\<close> is exactly 0.
\<close>

definition relative_distance :: "fl \<Rightarrow> fl \<Rightarrow> fl" where
  "relative_distance dist_same dist_diff =
     fdiv (fsub dist_same dist_diff) (fadd dist_same dist_diff)"

definition relative_distance_gradient :: "fl \<Rightarrow> fl \<Rightarrow> bool \<Rightarrow> fl" where
  "relative_distance_gradient dist_same dist_diff is_same_branch =
     (let denominator = fadd dist_same dist_diff
      in if denominator = Fin 0 then Fin 0
         else if is_same_branch
              then fdiv (fmul (Fin 2) dist_diff) (fmul denominator denominator)
              else fdiv (fmul (Fin (- 2)) dist_same) (fmul denominator denominator))"

section \<open>objectives/_generalized_learning_objective.py\<close>

text \<open>
  The strategy objects the objective calls: \<open>model._distance\<close> and its \<open>gradient\<close>,
  \<open>self.activation\<close> and \<open>self.discriminant\<close> with theirs. The objective is written
  against their interfaces, so they are parameters here.
\<close>

record 'l strategies =
  distance_fn :: "ndarray \<Rightarrow> 'l lvq_model \<Rightarrow> error + ndarray"
  distance_gradient_fn :: "ndarray \<Rightarrow> 'l lvq_model \<Rightarrow> nat \<Rightarrow> error + ndarray"
  activation_fn :: "vec \<Rightarrow> vec"
  activation_gradient_fn :: "vec \<Rightarrow> vec"
  discriminant_fn :: "vec \<Rightarrow> vec \<Rightarrow> vec"
  discriminant_gradient_fn :: "vec \<Rightarrow> vec \<Rightarrow> bool \<Rightarrow> vec"

text \<open>
  \<open>ndarray.min\<close> and \<open>ndarray.argmin\<close> along a row that is not empty: a NaN in the row is
  the minimum, and the first NaN (otherwise the first least entry) is its index.
\<close>

definition fmin2 :: "fl \<Rightarrow> fl \<Rightarrow> fl" where
  "fmin2 a b = (if isnan a then a else if isnan b then b else if fless b a then b else a)"

fun np_min :: "vec \<Rightarrow> fl" where
  "np_min [] = NaN"
| "np_min (x # xs) = foldl fmin2 x xs"

fun first_index :: "('a \<Rightarrow> bool) \<Rightarrow> 'a list \<Rightarrow> nat" where
  "first_index Q [] = 0"
| "first_index Q (x # xs) = (if Q x then 0 else Suc (first_index Q xs))"

definition np_argmin :: "vec \<Rightarrow> nat" where
  "np_argmin xs =
     (if list_ex isnan xs then first_index isnan xs else first_index (\<lambda>x. x = np_min xs) xs)"

text \<open>
  \<open>_find_min(indices, distances)\<close>. Reducing along an axis of length zero (a model
  without prototypes) raises ValueError in numpy.
\<close>

definition find_min :: "bool list list \<Rightarrow> ndarray \<Rightarrow> error + (vec \<times> nat list)" where
  "find_min indices distances =
     (let dist_temp =
            map2 (\<lambda>i_row d_row. map2 (\<lambda>b d. if b then d else PInf) i_row d_row)
              indices (rows distances)
      in if shape1 distances = 0 then Inl ValueError
         else Inr (map np_min dist_temp, map np_argmin dist_temp))"

text \<open>\<open>_compute_distance(data, labels, model)\<close>\<close>

definition compute_distance ::
  "'l strategies \<Rightarrow> ndarray \<Rightarrow> 'l list \<Rightarrow> 'l lvq_model
     \<Rightarrow> error + (vec \<times> vec \<times> nat list \<times> nat list)" where
  "compute_distance strat data labels model =
     (case distance_fn strat data model of
        Inl e \<Rightarrow> Inl e
      | Inr distances \<Rightarrow>
          let ii_same = map (\<lambda>label. map (\<lambda>prototype_label. label = prototype_label)
                                        (model_prototypes_labels model)) labels;
              ii_diff = map (map Not) ii_same
          in case find_min ii_same distances of
               Inl e \<Rightarrow> Inl e
             | Inr (dist_same, i_dist_same) \<Rightarrow>
                 (case find_min ii_diff distances of
                    Inl e \<Rightarrow> Inl e
                  | Inr (dist_diff, i_dist_diff) \<Rightarrow>
                      Inr (dist_same, dist_diff, i_dist_same, i_dist_diff)))"

text \<open>\<open>GeneralizedLearningObjective.__call__(model, data, labels)\<close>\<close>

definition GLO_call :: "'l strategies \<Rightarrow> 'l lvq_model \<Rightarrow> ndarray \<Rightarrow> 'l list \<Rightarrow> error + fl" where
  "GLO_call strat model data labels =
     (case compute_distance strat data labels model of
        Inl e \<Rightarrow> Inl e
      | Inr (dist_same, dist_diff, _, _) \<Rightarrow>
          Inr (fsum (activation_fn strat (discriminant_fn strat dist_same dist_diff))))"

text \<open>
  Modelled from the spec: \<open>model.get_variables()\<close> and
  \<open>model.add_partial_gradient(buffer, contribution, i_prototype)\<close> of the classifier, which
  is not among the sources. The flat variable vector is the prototype matrix followed by
  the relevance matrix, both row by row. A contribution has the layout of that vector; it is
  accumulated into the buffer at the offset of the prototype and at the offset of \<open>\<Omega>\<close>.
\<close>

definition get_variables :: "'l lvq_model \<Rightarrow> vec" where
  "get_variables model = concat (rows (model_prototypes model)) @ concat (rows (model_omega model))"

definition add_partial_gradient :: "'l lvq_model \<Rightarrow> vec \<Rightarrow> vec \<Rightarrow> nat \<Rightarrow> vec" where
  "add_partial_gradient model gradient_buffer contribution i_prototype =
     (let num_features = shape1 (model_prototypes model);
          ip_start = i_prototype * num_features;
          ip_end = ip_start + num_features;
          io_start = size_nd (model_prototypes model)
      in map (\<lambda>k. if ((ip_start \<le> k \<and> k < ip_end) \<or> io_start \<le> k) \<and> k < length contribution
                    then fadd (gradient_buffer ! k) (contribution ! k)
                    else gradient_buffer ! k)
             [0..<length gradient_buffer])"

text \<open>\<open>x[mask]\<close> and \<open>data[mask, :]\<close> for a boolean mask.\<close>

definition select :: "bool list \<Rightarrow> 'a list \<Rightarrow> 'a list" where
  "select bmask xs = map snd (filter fst (zip bmask xs))"

definition select_rows :: "bool list \<Rightarrow> ndarray \<Rightarrow> ndarray" where
  "select_rows bmask data =
     mk_ndarray (length (select bmask (rows data))) (shape1 data) (select bmask (rows data))"

text \<open>
  One branch of the loop body of \<open>gradient\<close>: for the samples of which the prototype is
  the winner, if there are any, the chain of the three partial derivatives is added to the
  buffer. \<open>is_same\<close> tells the branch of the closest prototype with the same label from
  the one with a different label.
\<close>

definition winner_update ::
  "'l strategies \<Rightarrow> 'l lvq_model \<Rightarrow> ndarray \<Rightarrow> vec \<Rightarrow> vec \<Rightarrow> vec \<Rightarrow> nat list \<Rightarrow> bool
     \<Rightarrow> nat \<Rightarrow> vec \<Rightarrow> error + vec" where
  "winner_update strat model data dist_same dist_diff discriminant_score i_dist is_same
       i_prototype gradient_buffer =
     (let ii_winner = map (\<lambda>i. i_prototype = i) i_dist
      in if list_ex id ii_winner
         then
           let activation_gradient =
                 activation_gradient_fn strat (select ii_winner discriminant_score);
               discriminant_gradient =
                 discriminant_gradient_fn strat (select ii_winner dist_same)
                   (select ii_winner dist_diff) is_same
           in case distance_gradient_fn strat (select_rows ii_winner data) model i_prototype of
                Inl e \<Rightarrow> Inl e
              | Inr distance_gradient \<Rightarrow>
                  Inr (add_partial_gradient model gradient_buffer
                         (vecmat (map2 fmul activation_gradient discriminant_gradient)
                            distance_gradient)
                         i_prototype)
         else Inr gradient_buffer)"

fun gradient_loop ::
  "'l strategies \<Rightarrow> 'l lvq_model \<Rightarrow> ndarray \<Rightarrow> vec \<Rightarrow> vec \<Rightarrow> vec \<Rightarrow> nat list \<Rightarrow> nat list
     \<Rightarrow> nat list \<Rightarrow> vec \<Rightarrow> error + vec" where
  "gradient_loop strat model data dist_same dist_diff discriminant_score i_dist_same i_dist_diff
       [] gradient_buffer = Inr gradient_buffer"
| "gradient_loop strat model data dist_same dist_diff discriminant_score i_dist_same i_dist_diff
       (i_prototype # rest) gradient_buffer =
     (case winner_update strat model data dist_same dist_diff discriminant_score i_dist_same
             True i_prototype gradient_buffer of
        Inl e \<Rightarrow> Inl e
      | Inr buffer1 \<Rightarrow>
          (case winner_update strat model data dist_same dist_diff discriminant_score
                  i_dist_diff False i_prototype buffer1 of
             Inl e \<Rightarrow> Inl e
           | Inr buffer2 \<Rightarrow>
               gradient_loop strat model data dist_same dist_diff discriminant_score
                 i_dist_same i_dist_diff rest buffer2))"

text \<open>\<open>GeneralizedLearningObjective.gradient(model, data, labels)\<close>\<close>

definition GLO_gradient :: "'l strategies \<Rightarrow> 'l lvq_model \<Rightarrow> ndarray \<Rightarrow> 'l list \<Rightarrow> error + vec" where
  "GLO_gradient strat model data labels =
     (case compute_distance strat data labels model of
        Inl e \<Rightarrow> Inl e
      | Inr (dist_same, dist_diff, i_dist_same, i_dist_diff) \<Rightarrow>
          let discriminant_score = discriminant_fn strat dist_same dist_diff;
              gradient_buffer = replicate (length (get_variables model)) (Fin 0)
          in gradient_loop strat model data dist_same dist_diff discriminant_score
               i_dist_same i_dist_diff [0..<length (model_prototypes_labels model)]
               gradient_buffer)"

text \<open>
  The strategies of the sources: the adaptive squared NaN-Euclidean distance, the identity
  activation and the relative-distance discriminant applied entry by entry; and a model with
  three prototypes of one feature.
\<close>

definition example_strategies :: "nat strategies" where
  "example_strategies =
     \<lparr>distance_fn = ASNE_call, distance_gradient_fn = ASNE_gradient,
      activation_fn = Identity_call, activation_gradient_fn = Identity_gradient,
      discriminant_fn = map2 relative_distance,
      discriminant_gradient_fn =
        (\<lambda>dist_same dist_diff is_same.
           map2 (\<lambda>s d. relative_distance_gradient s d is_same) dist_same dist_diff)\<rparr>"

definition example_model3 :: "nat lvq_model" where
  "example_model3 =
     \<lparr>model_prototypes = mk_ndarray 3 1 [[Fin 0], [Fin 1], [Fin 5]],
      model_omega = mk_ndarray 1 1 [[Fin 1]],
      model_prototypes_labels = [0, 1, 1]\<rparr>"


section \<open>solvers/__init__.py\<close>

datatype import_error = InvalidSolverType | UnknownClass

definition ALIASES :: "(string \<times> string) list" where
  "ALIASES =
     [(''sgd'', ''steepest-gradient-descent''),
      (''bgd'', ''steepest-gradient-descent''),
      (''bfgs'', ''broyden-fletcher-goldfarb-shanno''),
      (''lbfgs'', ''limited-memory-bfgs''),
      (''adam'', ''adaptive-moment-estimation'')]"

text \<open>
  \<open>import_from_string(class_string, valid_strings=None)\<close>. The first argument stands for
  \<open>_import_class_from_string(__name__, \<cdot>)\<close> of \<open>sklvq._utils\<close>, which is not among the
  sources. \<open>InvalidSolverType\<close> is the \<open>ValueError("Provided solver_type is invalid.")\<close>.
\<close>

definition import_from_string ::
  "(string \<Rightarrow> import_error + 'c) \<Rightarrow> string \<Rightarrow> string list option \<Rightarrow> import_error + 'c" where
  "import_from_string import_class_from_string class_string valid_strings =
     (let class_string1 =
            (case map_of ALIASES class_string of
               Some target \<Rightarrow> target
             | None \<Rightarrow> class_string)
      in case valid_strings of
           None \<Rightarrow> import_class_from_string class_string1
         | Some valid \<Rightarrow>
             if class_string1 \<notin> set valid then Inl InvalidSolverType
             else import_class_from_string class_string1)"

text \<open>
  Modelled from the spec: the registry behind \<open>_import_class_from_string\<close>, which is not
  among the sources. A tag is looked up without regard to case in a table from names to
  constructors; an unknown tag fails with a configuration error (\<open>UnknownClass\<close>).
\<close>

datatype solver_class =
  SteepestGradientDescent | WaypointGradientDescent | BroydenFletcherGoldfarbShanno
  | LimitedMemoryBfgs | AdaptiveMomentEstimation

definition lower_char :: "char \<Rightarrow> char" where
  "lower_char c =
     (case map_of (zip ''ABCDEFGHIJKLMNOPQRSTUVWXYZ'' ''abcdefghijklmnopqrstuvwxyz'') c of
        Some l \<Rightarrow> l
      | None \<Rightarrow> c)"

definition lower :: "string \<Rightarrow> string" where
  "lower s = map lower_char s"

definition solver_registry :: "(string \<times> solver_class) list" where
  "solver_registry =
     [(''steepest-gradient-descent'', SteepestGradientDescent),
      (''waypoint-gradient-descent'', WaypointGradientDescent),
      (''broyden-fletcher-goldfarb-shanno'', BroydenFletcherGoldfarbShanno),
      (''limited-memory-bfgs'', LimitedMemoryBfgs),
      (''adaptive-moment-estimation'', AdaptiveMomentEstimation)]"

definition import_class_from_string :: "string \<Rightarrow> import_error + solver_class" where
  "import_class_from_string class_string =
     (case map_of solver_registry (lower class_string) of
        Some c \<Rightarrow> Inr c
      | None \<Rightarrow> Inl UnknownClass)"

section \<open>solvers/steepest_gradient_descent.py\<close>

text \<open>
  What \<open>solve\<close> calls and the sources do not contain: the model's codec
  (\<open>_to_variables\<close>, \<open>_to_params\<close>, \<open>_get_model_params\<close>, \<open>_set_model_params\<close>), the
  solver base class (\<open>multiply_model_params\<close>), the objective and its gradient with the
  four arguments \<open>solve\<close> passes, the subtraction of two variable vectors, and
  \<open>sklearn.utils.shuffle\<close> of \<open>range(0, n)\<close> with the model's random state, here a
  function of the model, the run and \<open>n\<close>. They are parameters, taken as total.
\<close>

record ('m, 'v, 'p, 'x, 'l) collaborators =
  to_variables :: "'m \<Rightarrow> 'p \<Rightarrow> 'v"
  to_params :: "'m \<Rightarrow> 'v \<Rightarrow> 'p"
  get_params :: "'m \<Rightarrow> 'p"
  set_params :: "'m \<Rightarrow> 'p \<Rightarrow> 'm"
  multiply_model_params :: "real \<Rightarrow> 'p \<Rightarrow> 'p"
  objective :: "'v \<Rightarrow> 'm \<Rightarrow> 'x list \<Rightarrow> 'l list \<Rightarrow> fl"
  objective_gradient :: "'v \<Rightarrow> 'm \<Rightarrow> 'x list \<Rightarrow> 'l list \<Rightarrow> 'v"
  subtract :: "'v \<Rightarrow> 'v \<Rightarrow> 'v"
  shuffle :: "'m \<Rightarrow> nat \<Rightarrow> nat \<Rightarrow> nat list"

text \<open>The state handed to the callback, with the keys of \<open>STATE_KEYS\<close>.\<close>

record 'v solver_state =
  state_variables :: 'v
  state_nit :: nat
  state_fun :: fl
  state_jac :: "'v option"
  state_step_size :: "real option"

text \<open>The fields of \<open>SteepestGradientDescent\<close>.\<close>

record ('m, 'v) sgd =
  max_runs :: int
  batch_size :: int
  step_size :: real
  callback :: "('m \<Rightarrow> 'v solver_state \<Rightarrow> bool) option"

text \<open>
  What one call of \<open>solve\<close> did, recorded beside its result: the runs completed and the
  calls of the callback, in order, each call with the value of \<open>nit\<close>, the model and the
  state it was given and the answer it gave; and for every batch the run, the step size, the
  model and the variables read before the batch, and the variables committed after it.
\<close>

datatype ('m, 'v) event = Run nat | Callback nat 'm "'v solver_state" bool

record ('m, 'v, 'x, 'l) batch_step =
  step_run :: nat
  step_step_size :: real
  step_model :: 'm
  step_batch :: "'x list"
  step_batch_labels :: "'l list"
  step_variables_read :: 'v
  step_variables_committed :: 'v

text \<open>
  \<open>list(range(start, stop, step))\<close> for a step that is not negative; a step of zero
  raises ValueError.
\<close>

definition py_range :: "nat \<Rightarrow> nat \<Rightarrow> nat \<Rightarrow> error + nat list" where
  "py_range start stop step =
     (if step = 0 then Inl ValueError
      else Inr (map (\<lambda>k. start + k * step) [0..<(stop - start + step - 1) div step]))"

text \<open>
  An array of indices with its dtype. The shuffled indices are a Python list of ints, which
  numpy turns into an array when it splits it: an integer array, except that the empty list
  becomes an array of dtype float64.
\<close>

datatype dtype = Int64 | Float64

definition asarray :: "nat list \<Rightarrow> dtype \<times> nat list" where
  "asarray xs = (if xs = [] then Float64 else Int64, xs)"

text \<open>
  \<open>np.array_split(ary, indices)\<close> with a list of split points: the slices
  \<open>ary[0:i1]\<close>, \<open>ary[i1:i2]\<close>, up to \<open>ary[ik:]\<close> of the array made of \<open>ary\<close>, each with the
  dtype of that array.
\<close>

definition array_split :: "nat list \<Rightarrow> nat list \<Rightarrow> (dtype \<times> nat list) list" where
  "array_split ary indices =
     (case asarray ary of
        (dt, a) \<Rightarrow>
          map (\<lambda>(lo, hi). (dt, drop lo (take hi a))) (zip (0 # indices) (indices @ [length a])))"

text \<open>
  \<open>array[indices]\<close> for an array of indices that are not negative: IndexError when the
  indices are not of an integer dtype, or when one of them is out of bounds.
\<close>

definition take_indices :: "'a list \<Rightarrow> dtype \<times> nat list \<Rightarrow> error + 'a list" where
  "take_indices xs indices =
     (case indices of
        (dt, js) \<Rightarrow>
          if dt = Int64 \<and> list_all (\<lambda>i. i < length xs) js then Inr (map (\<lambda>i. xs ! i) js)
          else Inl IndexError)"

text \<open>The body of the loop over the batches.\<close>

definition batch_update ::
  "('m, 'v, 'p, 'x, 'l) collaborators \<Rightarrow> nat \<Rightarrow> real \<Rightarrow> 'm \<Rightarrow> 'x list \<Rightarrow> 'l list
     \<Rightarrow> 'm \<times> ('v \<times> 'v) \<times> ('m, 'v, 'x, 'l) batch_step" where
  "batch_update env i_run step model batch batch_labels =
     (let model_variables = to_variables env model (get_params env model);
          objective_gradient0 =
            to_params env model (objective_gradient env model_variables model batch batch_labels);
          objective_gradient1 =
            to_variables env model (multiply_model_params env step objective_gradient0);
          new_model_variables = subtract env model_variables objective_gradient1
      in (set_params env model (to_params env model new_model_variables),
          (new_model_variables, objective_gradient1),
          \<lparr>step_run = i_run, step_step_size = step, step_model = model, step_batch = batch,
           step_batch_labels = batch_labels, step_variables_read = model_variables,
           step_variables_committed = new_model_variables\<rparr>))"

text \<open>
  The loop over the batches of one run. \<open>latest\<close> holds \<open>new_model_variables\<close> and
  \<open>objective_gradient\<close> once a batch has assigned them.
\<close>

fun run_batches ::
  "('m, 'v, 'p, 'x, 'l) collaborators \<Rightarrow> nat \<Rightarrow> real \<Rightarrow> 'x list \<Rightarrow> 'l list
     \<Rightarrow> (dtype \<times> nat list) list \<Rightarrow> 'm \<Rightarrow> ('v \<times> 'v) option
     \<Rightarrow> error + ('m \<times> ('v \<times> 'v) option \<times> ('m, 'v, 'x, 'l) batch_step list)" where
  "run_batches env i_run step data labels [] model latest = Inr (model, latest, [])"
| "run_batches env i_run step data labels (indices # batches) model latest =
     (case take_indices data indices of
        Inl e \<Rightarrow> Inl e
      | Inr batch \<Rightarrow>
          (case take_indices labels indices of
             Inl e \<Rightarrow> Inl e
           | Inr batch_labels \<Rightarrow>
               (case batch_update env i_run step model batch batch_labels of
                  (model1, latest1, entry) \<Rightarrow>
                    (case run_batches env i_run step data labels batches model1 (Some latest1) of
                       Inl e \<Rightarrow> Inl e
                     | Inr (model2, latest2, entries) \<Rightarrow> Inr (model2, latest2, entry # entries)))))"

text \<open>The annealed step size of run \<open>i_run\<close>.\<close>

definition annealed_step_size :: "('m, 'v) sgd \<Rightarrow> nat \<Rightarrow> real" where
  "annealed_step_size solver i_run =
     step_size solver / (1 + real i_run / real_of_int (max_runs solver))"

text \<open>The body of the loop over the runs, up to the callback.\<close>

definition one_run ::
  "('m, 'v, 'p, 'x, 'l) collaborators \<Rightarrow> ('m, 'v) sgd \<Rightarrow> 'x list \<Rightarrow> 'l list \<Rightarrow> nat \<Rightarrow> 'm
     \<Rightarrow> error + ('m \<times> ('v \<times> 'v) option \<times> ('m, 'v, 'x, 'l) batch_step list)" where
  "one_run env solver data labels i_run model =
     (let shuffled_indices = shuffle env model i_run (length labels);
          batch_size1 =
            (if batch_size solver \<le> 0 then length data else nat (batch_size solver))
      in case py_range batch_size1 (length labels) batch_size1 of
           Inl e \<Rightarrow> Inl e
         | Inr points \<Rightarrow>
             run_batches env i_run (annealed_step_size solver i_run) data labels
               (array_split shuffled_indices points) model None)"

text \<open>
  The callback after a run: \<open>None\<close> when no callback is registered, otherwise the state
  made for it and its answer. \<open>new_model_variables\<close> is read here; it is bound because a
  run has at least one batch.
\<close>

definition callback_after_run ::
  "('m, 'v, 'p, 'x, 'l) collaborators \<Rightarrow> ('m, 'v) sgd \<Rightarrow> 'x list \<Rightarrow> 'l list \<Rightarrow> nat \<Rightarrow> 'm
     \<Rightarrow> ('v \<times> 'v) option \<Rightarrow> error + ('v solver_state \<times> bool) option" where
  "callback_after_run env solver data labels i_run model latest =
     (case callback solver of
        None \<Rightarrow> Inr None
      | Some cb \<Rightarrow>
          (case latest of
             None \<Rightarrow> Inl UnboundLocalError
           | Some (new_model_variables, objective_gradient1) \<Rightarrow>
               let state =
                     \<lparr>state_variables = new_model_variables, state_nit = i_run,
                      state_fun = objective env new_model_variables model data labels,
                      state_jac = Some objective_gradient1,
                      state_step_size = Some (annealed_step_size solver i_run)\<rparr>
               in Inr (Some (state, cb model state))))"

text \<open>The loop over the runs.\<close>

fun runs ::
  "('m, 'v, 'p, 'x, 'l) collaborators \<Rightarrow> ('m, 'v) sgd \<Rightarrow> 'x list \<Rightarrow> 'l list \<Rightarrow> nat list \<Rightarrow> 'm
     \<Rightarrow> error + ('m \<times> ('m, 'v) event list \<times> ('m, 'v, 'x, 'l) batch_step list)" where
  "runs env solver data labels [] model = Inr (model, [], [])"
| "runs env solver data labels (i_run # rest) model =
     (case one_run env solver data labels i_run model of
        Inl e \<Rightarrow> Inl e
      | Inr (model1, latest, entries) \<Rightarrow>
          (case callback_after_run env solver data labels i_run model1 latest of
             Inl e \<Rightarrow> Inl e
           | Inr answer \<Rightarrow>
               let called =
                     (case answer of
                        None \<Rightarrow> []
                      | Some (state, stop) \<Rightarrow> [Callback i_run model1 state stop])
               in if (case answer of None \<Rightarrow> False | Some (state, stop) \<Rightarrow> stop)
                  then Inr (model1, Run i_run # called, entries)
                  else
                    (case runs env solver data labels rest model1 of
                       Inl e \<Rightarrow> Inl e
                     | Inr (model2, trace, entries2) \<Rightarrow>
                         Inr (model2, Run i_run # called @ trace, entries @ entries2))))"

text \<open>\<open>SteepestGradientDescent.solve(data, labels, model)\<close>\<close>

definition solve ::
  "('m, 'v, 'p, 'x, 'l) collaborators \<Rightarrow> ('m, 'v) sgd \<Rightarrow> 'x list \<Rightarrow> 'l list \<Rightarrow> 'm
     \<Rightarrow> error + ('m \<times> ('m, 'v) event list \<times> ('m, 'v, 'x, 'l) batch_step list)" where
  "solve env solver data labels model =
     (let first_answer =
            (case callback solver of
               None \<Rightarrow> None
             | Some cb \<Rightarrow>
                 let variables = to_variables env model (get_params env model);
                     state =
                       \<lparr>state_variables = variables, state_nit = 0,
                        state_fun = objective env variables model data labels,
                        state_jac = None, state_step_size = None\<rparr>
                 in Some (state, cb model state));
          called =
            (case first_answer of
               None \<Rightarrow> []
             | Some (state, stop) \<Rightarrow> [Callback 0 model state stop])
      in if (case first_answer of None \<Rightarrow> False | Some (state, stop) \<Rightarrow> stop)
         then Inr (model, called, [])
         else
           case runs env solver data labels [0..<nat (max_runs solver)] model of
             Inl e \<Rightarrow> Inl e
           | Inr (model1, trace, entries) \<Rightarrow> Inr (model1, called @ trace, entries))"

text \<open>
  The update rule in the words of the specification: the variables committed after a batch
  are the variables read before it minus the gradient of the batch in variables form, scaled
  in parameter form by the step size.
\<close>

definition follows_update_rule ::
  "('m, 'v, 'p, 'x, 'l) collaborators \<Rightarrow> ('m, 'v, 'x, 'l) batch_step \<Rightarrow> bool" where
  "follows_update_rule env e =
     (step_variables_committed e =
        subtract env (step_variables_read e)
          (to_variables env (step_model e)
             (multiply_model_params env (step_step_size e)
                (to_params env (step_model e)
                   (objective_gradient env (step_variables_read e) (step_model e)
                      (step_batch e) (step_batch_labels e))))))"

text \<open>
  A sequence of batch steps that leads from one model to another, every step reading the
  model that the step before it committed.
\<close>

fun chained ::
  "('m, 'v, 'p, 'x, 'l) collaborators \<Rightarrow> 'm \<Rightarrow> ('m, 'v, 'x, 'l) batch_step list \<Rightarrow> 'm \<Rightarrow> bool" where
  "chained env model [] final = (final = model)"
| "chained env model (e # es) final =
     (step_model e = model
      \<and> step_variables_read e = to_variables env model (get_params env model)
      \<and> chained env
           (set_params env model (to_params env model (step_variables_committed e))) es final)"

text \<open>
  The order of events the specification gives for a call of \<open>solve\<close>: with a callback
  registered, one check before the first run and one after each run, a positive answer being
  the last event; without a callback, the runs alone.
\<close>

fun run_trace_ok :: "bool \<Rightarrow> nat list \<Rightarrow> ('m, 'v) event list \<Rightarrow> bool" where
  "run_trace_ok registered [] trace = (trace = [])"
| "run_trace_ok True (i # rest) (Run j # Callback j' m state answer # trace) =
     (j = i \<and> j' = i \<and> (if answer then trace = [] else run_trace_ok True rest trace))"
| "run_trace_ok False (i # rest) (Run j # trace) = (j = i \<and> run_trace_ok False rest trace)"
| "run_trace_ok registered (i # rest) trace = False"

fun solve_trace_ok :: "bool \<Rightarrow> nat \<Rightarrow> ('m, 'v) event list \<Rightarrow> bool" where
  "solve_trace_ok True n (Callback i m state answer # trace) =
     (i = 0 \<and> (if answer then trace = [] else run_trace_ok True [0..<n] trace))"
| "solve_trace_ok True n trace = False"
| "solve_trace_ok False n trace = run_trace_ok False [0..<n] trace"

fun is_run :: "('m, 'v) event \<Rightarrow> bool" where
  "is_run (Run i) = True"
| "is_run (Callback i m state answer) = False"

fun is_stop :: "('m, 'v) event \<Rightarrow> bool" where
  "is_stop (Callback i m state answer) = answer"
| "is_stop (Run i) = False"

text \<open>
  What the specification says of one call of the callback: the answer recorded is the answer
  of the registered callback to the model and the state it was given, and the state holds
  the iteration index and the cost of its variables on the whole data.
\<close>

fun callback_answered ::
  "('m, 'v, 'p, 'x, 'l) collaborators \<Rightarrow> ('m, 'v) sgd \<Rightarrow> 'x list \<Rightarrow> 'l list \<Rightarrow> ('m, 'v) event
     \<Rightarrow> bool" where
  "callback_answered env solver data labels (Run i) = True"
| "callback_answered env solver data labels (Callback i m state answer) =
     ((case callback solver of None \<Rightarrow> False | Some cb \<Rightarrow> answer = cb m state)
      \<and> state_nit state = i
      \<and> state_fun state = objective env (state_variables state) m data labels)"

text \<open>The model a call of the callback was given.\<close>

fun model_seen :: "('m, 'v) event \<Rightarrow> 'm option" where
  "model_seen (Run i) = None"
| "model_seen (Callback i m state answer) = Some m"

text \<open>
  A one-variable model for the solver: the model is its variable, the gradient of a batch
  is \<open>\<Sum> 2 (v - x)\<close>, the samples are visited in reverse order, and the callback asks to
  stop as soon as a gradient has been computed.
\<close>

definition example_env :: "(real, real, real, real, nat) collaborators" where
  "example_env =
     \<lparr>to_variables = (\<lambda>m p. p), to_params = (\<lambda>m v. v), get_params = (\<lambda>m. m),
      set_params = (\<lambda>m p. p), multiply_model_params = (\<lambda>s p. s * p),
      objective = (\<lambda>v m xs ls. Fin (sum_list (map (\<lambda>x. (v - x) * (v - x)) xs))),
      objective_gradient = (\<lambda>v m xs ls. sum_list (map (\<lambda>x. 2 * (v - x)) xs)),
      subtract = (\<lambda>a b. a - b),
      shuffle = (\<lambda>m i n. rev [0..<n])\<rparr>"

definition example_sgd :: "(real, real) sgd" where
  "example_sgd = \<lparr>max_runs = 2, batch_size = 1, step_size = 1 / 2, callback = None\<rparr>"

definition example_sgd_stop :: "(real, real) sgd" where
  "example_sgd_stop =
     \<lparr>max_runs = 2, batch_size = 1, step_size = 1 / 2,
      callback = Some (\<lambda>m state. state_jac state \<noteq> None)\<rparr>"

text \<open>The batch steps of the example, two runs over two batches of one sample.\<close>

definition example_steps :: "(real, real, real, nat) batch_step list" where
  "example_steps =
     [\<lparr>step_run = 0, step_step_size = 1 / 2, step_model = 0, step_batch = [3],
       step_batch_labels = [0], step_variables_read = 0, step_variables_committed = 3\<rparr>,
      \<lparr>step_run = 0, step_step_size = 1 / 2, step_model = 3, step_batch = [1],
       step_batch_labels = [0], step_variables_read = 3, step_variables_committed = 1\<rparr>,
      \<lparr>step_run = 1, step_step_size = 1 / 3, step_model = 1, step_batch = [3],
       step_batch_labels = [0], step_variables_read = 1, step_variables_committed = 7 / 3\<rparr>,
      \<lparr>step_run = 1, step_step_size = 1 / 3, step_model = 7 / 3, step_batch = [1],
       step_batch_labels = [0], step_variables_read = 7 / 3,
       step_variables_committed = 13 / 9\<rparr>]"

text \<open>
  The events of the example with the callback: asked before the first run, it sees the model
  0 and no gradient; asked after the first run, it sees the model 1 and stops.
\<close>

definition example_trace :: "(real, real) event list" where
  "example_trace =
     [Callback 0 0
        \<lparr>state_variables = 0, state_nit = 0, state_fun = Fin 10, state_jac = None,
         state_step_size = None\<rparr> False,
      Run 0,
      Callback 0 1
        \<lparr>state_variables = 1, state_nit = 0, state_fun = Fin 4, state_jac = Some 2,
         state_step_size = Some (1 / 2)\<rparr> True]"

section \<open>Arrays as objects\<close>

text \<open>
  For the question of which array an operation writes, the arrays live in a store: a list
  of cells, an address being a position in it. A reference is an array object or the view
  of one of its rows (\<open>prototypes[i, :]\<close>, \<open>X[i]\<close>); a write through a view writes the
  object it views. Arithmetic, \<open>np.dot\<close>, \<open>einsum\<close>, \<open>np.zeros\<close> and indexing with a mask
  allocate a new array; an assignment to an index expression writes in place.
\<close>

datatype 'l cell = Vec vec | Mat ndarray | Cube "ndarray list" | Labels "'l list"

type_synonym 'l heap = "'l cell list"

datatype ref = Whole nat | Row nat nat

fun base :: "ref \<Rightarrow> nat" where
  "base (Whole a) = a"
| "base (Row a i) = a"

definition cell_at :: "'l heap \<Rightarrow> nat \<Rightarrow> 'l cell" where
  "cell_at h a = (if a < length h then h ! a else Vec [])"

fun as_mat :: "'l cell \<Rightarrow> ndarray" where
  "as_mat (Mat A) = A"
| "as_mat _ = mk_ndarray 0 0 []"

fun as_vec :: "'l cell \<Rightarrow> vec" where
  "as_vec (Vec v) = v"
| "as_vec _ = []"

fun as_cube :: "'l cell \<Rightarrow> ndarray list" where
  "as_cube (Cube As) = As"
| "as_cube _ = []"

fun as_labels :: "'l cell \<Rightarrow> 'l list" where
  "as_labels (Labels ls) = ls"
| "as_labels _ = []"

fun read_mat :: "'l heap \<Rightarrow> ref \<Rightarrow> ndarray" where
  "read_mat h (Whole a) = as_mat (cell_at h a)"
| "read_mat h (Row a i) =
     mk_ndarray 1 (shape1 (as_mat (cell_at h a))) [rows (as_mat (cell_at h a)) ! i]"

fun read_vec :: "'l heap \<Rightarrow> ref \<Rightarrow> vec" where
  "read_vec h (Whole a) = as_vec (cell_at h a)"
| "read_vec h (Row a i) = rows (as_mat (cell_at h a)) ! i"

definition alloc :: "'l cell \<Rightarrow> 'l heap \<Rightarrow> ref \<times> 'l heap" where
  "alloc c h = (Whole (length h), h @ [c])"

text \<open>\<open>x[np.isnan(x)] = 0\<close>, written through the reference \<open>x\<close>.\<close>

fun setitem_isnan_zero :: "ref \<Rightarrow> 'l heap \<Rightarrow> 'l heap" where
  "setitem_isnan_zero (Whole a) h =
     h[a := (case cell_at h a of
               Vec v \<Rightarrow> Vec (map nan_to_zero v)
             | Mat A \<Rightarrow> Mat (A\<lparr>rows := map (map nan_to_zero) (rows A)\<rparr>)
             | c \<Rightarrow> c)]"
| "setitem_isnan_zero (Row a i) h =
     h[a := (case cell_at h a of
               Mat A \<Rightarrow> Mat (A\<lparr>rows := (rows A)[i := map nan_to_zero (rows A ! i)]\<rparr>)
             | c \<Rightarrow> c)]"

text \<open>\<open>x[:, start:stop] = B\<close>, written through the reference \<open>x\<close>.\<close>

definition setitem_columns :: "ref \<Rightarrow> nat \<Rightarrow> nat \<Rightarrow> vec list \<Rightarrow> 'l heap \<Rightarrow> 'l heap" where
  "setitem_columns x start stop B h =
     h[base x := Mat (assign_columns (as_mat (cell_at h (base x))) start stop B)]"

text \<open>The store after a computation agrees with the store before it on every old cell.\<close>

definition frame :: "'l heap \<Rightarrow> 'l heap \<Rightarrow> bool" where
  "frame h h' = (length h \<le> length h' \<and> take (length h) h' = h)"

text \<open>\<open>_adaptive_squared_nan_euclidean\<close>, \<open>_prototype_gradient\<close> and \<open>_omega_gradient\<close> on the store.\<close>

definition adaptive_squared_nan_euclidean_heap ::
  "ref \<Rightarrow> ref \<Rightarrow> ref \<Rightarrow> 'l heap \<Rightarrow> fl \<times> 'l heap" where
  "adaptive_squared_nan_euclidean_heap sample prototype lambda_matrix h =
     (let (difference, h1) = alloc (Vec (map2 fsub (read_vec h sample) (read_vec h prototype))) h;
          h2 = setitem_isnan_zero difference h1
      in (dot (vecmat (read_vec h2 difference) (read_mat h2 lambda_matrix))
            (read_vec h2 difference),
          h2))"

definition prototype_gradient_heap :: "ref \<Rightarrow> ref \<Rightarrow> ref \<Rightarrow> 'l heap \<Rightarrow> ref \<times> 'l heap" where
  "prototype_gradient_heap data prototype omega h =
     (let X = read_mat h data;
          (subtracted, h1) =
            alloc (Mat (X\<lparr>rows := map (\<lambda>x. map2 fsub x (read_vec h prototype)) (rows X)\<rparr>)) h;
          S = read_mat h1 subtracted;
          (difference, h2) = alloc (Mat (S\<lparr>rows := map (map (fmul (Fin (- 2)))) (rows S)\<rparr>)) h1;
          h3 = setitem_isnan_zero difference h2;
          (lambda_matrix, h4) = alloc (Mat (lambda_of (read_mat h3 omega))) h3
      in alloc (Mat (matmul (read_mat h4 difference) (read_mat h4 lambda_matrix))) h4)"

definition omega_gradient_heap :: "ref \<Rightarrow> ref \<Rightarrow> ref \<Rightarrow> 'l heap \<Rightarrow> ref \<times> 'l heap" where
  "omega_gradient_heap data prototype omega h =
     (let X = read_mat h data;
          (difference, h1) =
            alloc (Mat (X\<lparr>rows := map (\<lambda>x. map2 fsub x (read_vec h prototype)) (rows X)\<rparr>)) h;
          h2 = setitem_isnan_zero difference h1;
          D = read_mat h2 difference;
          (scaled_omega, h3) = alloc (Mat (matmul (read_mat h2 omega) (transpose_nd D))) h2;
          SO = read_mat h3 scaled_omega
      in alloc (Cube (map (\<lambda>j. mk_ndarray (shape0 (read_mat h3 omega)) (shape1 D)
                             (map (\<lambda>i. map (\<lambda>k. fmul (rows SO ! i ! j)
                                                      (fmul (Fin 2) (rows D ! j ! k)))
                                            [0..<shape1 D])
                                  [0..<shape0 (read_mat h3 omega)]))
                     [0..<shape0 X])) h3)"

text \<open>The model as the objects it refers to.\<close>

record model_refs =
  prototypes_ref :: ref
  omega_ref :: ref
  prototypes_labels_ref :: ref

definition read_model :: "'l heap \<Rightarrow> model_refs \<Rightarrow> 'l lvq_model" where
  "read_model h model =
     \<lparr>model_prototypes = read_mat h (prototypes_ref model),
      model_omega = read_mat h (omega_ref model),
      model_prototypes_labels = as_labels (cell_at h (base (prototypes_labels_ref model)))\<rparr>"

text \<open>
  \<open>pairwise_distances\<close> on the store: the callable receives the views \<open>X[i]\<close> and
  \<open>Y[j]\<close>, pair by pair; the result is a new array.
\<close>

fun metric_row ::
  "(ref \<Rightarrow> ref \<Rightarrow> 'l heap \<Rightarrow> fl \<times> 'l heap) \<Rightarrow> ref \<Rightarrow> ref list \<Rightarrow> 'l heap \<Rightarrow> vec \<times> 'l heap" where
  "metric_row metric x [] h = ([], h)"
| "metric_row metric x (y # ys) h =
     (let (d, h1) = metric x y h; (ds, h2) = metric_row metric x ys h1 in (d # ds, h2))"

fun metric_rows ::
  "(ref \<Rightarrow> ref \<Rightarrow> 'l heap \<Rightarrow> fl \<times> 'l heap) \<Rightarrow> ref list \<Rightarrow> ref list \<Rightarrow> 'l heap
     \<Rightarrow> vec list \<times> 'l heap" where
  "metric_rows metric [] ys h = ([], h)"
| "metric_rows metric (x # xs) ys h =
     (let (r, h1) = metric_row metric x ys h; (rs, h2) = metric_rows metric xs ys h1
      in (r # rs, h2))"

definition pairwise_distances_heap ::
  "ref \<Rightarrow> ref \<Rightarrow> (ref \<Rightarrow> ref \<Rightarrow> 'l heap \<Rightarrow> fl \<times> 'l heap) \<Rightarrow> 'l heap
     \<Rightarrow> (error + ref) \<times> 'l heap" where
  "pairwise_distances_heap X Y metric h =
     (if check_array_allow_nan (read_mat h X) \<and> check_array_allow_nan (read_mat h Y)
         \<and> shape1 (read_mat h X) = shape1 (read_mat h Y)
      then
        let (rs, h1) =
              metric_rows metric (map (Row (base X)) [0..<shape0 (read_mat h X)])
                (map (Row (base Y)) [0..<shape0 (read_mat h Y)]) h;
            (out, h2) = alloc (Mat (mk_ndarray (shape0 (read_mat h X)) (shape0 (read_mat h Y)) rs)) h1
        in (Inr out, h2)
      else (Inl ValueError, h))"

text \<open>\<open>AdaptiveSquaredNanEuclidean.__call__\<close> and \<open>gradient\<close> on the store.\<close>

definition ASNE_call_heap :: "ref \<Rightarrow> model_refs \<Rightarrow> 'l heap \<Rightarrow> (error + ref) \<times> 'l heap" where
  "ASNE_call_heap data model h =
     (let (lambda_matrix, h1) = alloc (Mat (lambda_of (read_mat h (omega_ref model)))) h
      in case pairwise_distances_heap data (prototypes_ref model)
                (\<lambda>sample prototype.
                   adaptive_squared_nan_euclidean_heap sample prototype lambda_matrix) h1 of
           (Inl e, h2) \<Rightarrow> (Inl e, h2)
         | (Inr D, h2) \<Rightarrow>
             (case alloc (Mat (power2_nd (read_mat h2 D))) h2 of
                (squared, h3) \<Rightarrow> (Inr squared, h3)))"

definition ASNE_gradient_heap ::
  "ref \<Rightarrow> model_refs \<Rightarrow> nat \<Rightarrow> 'l heap \<Rightarrow> (error + ref) \<times> 'l heap" where
  "ASNE_gradient_heap data model i_prototype h =
     (let prototypes = prototypes_ref model;
          omega = omega_ref model;
          num_samples = shape0 (read_mat h data);
          num_features = shape1 (read_mat h data);
          (distance_gradient, h1) =
            alloc (Mat (zeros num_samples
                          (size_nd (read_mat h prototypes) + size_nd (read_mat h omega)))) h;
          ip_start = i_prototype * num_features;
          ip_end = ip_start + num_features
      in if shape0 (read_mat h1 prototypes) \<le> i_prototype then (Inl IndexError, h1)
         else
           let (pg, h2) =
                 prototype_gradient_heap data (Row (base prototypes) i_prototype) omega h1;
               h3 = setitem_columns distance_gradient ip_start ip_end (rows (read_mat h2 pg)) h2;
               io_start = size_nd (read_mat h3 prototypes);
               (og, h4) = omega_gradient_heap data (Row (base prototypes) i_prototype) omega h3;
               h5 = setitem_columns distance_gradient io_start
                      (shape1 (read_mat h4 distance_gradient))
                      (reshape_rows (as_cube (cell_at h4 (base og)))) h4
           in (Inr distance_gradient, h5))"

text \<open>
  The objective on the store. \<open>model._distance\<close> is an object with the two methods of a
  distance; the activation and the discriminant receive and return new arrays, which are
  values here. The label arrays are read where the masks are built.
\<close>

record 'l distance_object =
  call_heap :: "ref \<Rightarrow> model_refs \<Rightarrow> 'l heap \<Rightarrow> (error + ref) \<times> 'l heap"
  gradient_heap :: "ref \<Rightarrow> model_refs \<Rightarrow> nat \<Rightarrow> 'l heap \<Rightarrow> (error + ref) \<times> 'l heap"

definition compute_distance_heap ::
  "'l distance_object \<Rightarrow> ref \<Rightarrow> ref \<Rightarrow> model_refs \<Rightarrow> 'l heap
     \<Rightarrow> (error + (vec \<times> vec \<times> nat list \<times> nat list)) \<times> 'l heap" where
  "compute_distance_heap dobj data labels model h =
     (case call_heap dobj data model h of
        (Inl e, h1) \<Rightarrow> (Inl e, h1)
      | (Inr distances, h1) \<Rightarrow>
          let ii_same = map (\<lambda>label. map (\<lambda>prototype_label. label = prototype_label)
                                        (model_prototypes_labels (read_model h1 model)))
                            (as_labels (cell_at h1 (base labels)));
              ii_diff = map (map Not) ii_same
          in case find_min ii_same (read_mat h1 distances) of
               Inl e \<Rightarrow> (Inl e, h1)
             | Inr (dist_same, i_dist_same) \<Rightarrow>
                 (case find_min ii_diff (read_mat h1 distances) of
                    Inl e \<Rightarrow> (Inl e, h1)
                  | Inr (dist_diff, i_dist_diff) \<Rightarrow>
                      (Inr (dist_same, dist_diff, i_dist_same, i_dist_diff), h1)))"

definition GLO_call_heap ::
  "'l distance_object \<Rightarrow> 'l strategies \<Rightarrow> model_refs \<Rightarrow> ref \<Rightarrow> ref \<Rightarrow> 'l heap
     \<Rightarrow> (error + fl) \<times> 'l heap" where
  "GLO_call_heap dobj strat model data labels h =
     (case compute_distance_heap dobj data labels model h of
        (Inl e, h1) \<Rightarrow> (Inl e, h1)
      | (Inr (dist_same, dist_diff, _, _), h1) \<Rightarrow>
          (Inr (fsum (activation_fn strat (discriminant_fn strat dist_same dist_diff))), h1))"

text \<open>
  Modelled from the spec: \<open>model.add_partial_gradient\<close> on the store; it accumulates into
  the buffer it is given, in place.
\<close>

definition add_partial_gradient_heap ::
  "model_refs \<Rightarrow> ref \<Rightarrow> vec \<Rightarrow> nat \<Rightarrow> 'l heap \<Rightarrow> 'l heap" where
  "add_partial_gradient_heap model gradient_buffer contribution i_prototype h =
     h[base gradient_buffer :=
         Vec (add_partial_gradient (read_model h model)
                (as_vec (cell_at h (base gradient_buffer))) contribution i_prototype)]"

definition winner_update_heap ::
  "'l distance_object \<Rightarrow> 'l strategies \<Rightarrow> model_refs \<Rightarrow> ref \<Rightarrow> vec \<Rightarrow> vec \<Rightarrow> vec \<Rightarrow> nat list
     \<Rightarrow> bool \<Rightarrow> nat \<Rightarrow> ref \<Rightarrow> 'l heap \<Rightarrow> (error + unit) \<times> 'l heap" where
  "winner_update_heap dobj strat model data dist_same dist_diff discriminant_score i_dist is_same
       i_prototype gradient_buffer h =
     (let ii_winner = map (\<lambda>i. i_prototype = i) i_dist
      in if list_ex id ii_winner
         then
           let activation_gradient =
                 activation_gradient_fn strat (select ii_winner discriminant_score);
               discriminant_gradient =
                 discriminant_gradient_fn strat (select ii_winner dist_same)
                   (select ii_winner dist_diff) is_same;
               (batch, h1) = alloc (Mat (select_rows ii_winner (read_mat h data))) h
           in case gradient_heap dobj batch model i_prototype h1 of
                (Inl e, h2) \<Rightarrow> (Inl e, h2)
              | (Inr distance_gradient, h2) \<Rightarrow>
                  (Inr (),
                   add_partial_gradient_heap model gradient_buffer
                     (vecmat (map2 fmul activation_gradient discriminant_gradient)
                        (read_mat h2 distance_gradient))
                     i_prototype h2)
         else (Inr (), h))"

fun gradient_loop_heap ::
  "'l distance_object \<Rightarrow> 'l strategies \<Rightarrow> model_refs \<Rightarrow> ref \<Rightarrow> vec \<Rightarrow> vec \<Rightarrow> vec \<Rightarrow> nat list
     \<Rightarrow> nat list \<Rightarrow> nat list \<Rightarrow> ref \<Rightarrow> 'l heap \<Rightarrow> (error + unit) \<times> 'l heap" where
  "gradient_loop_heap dobj strat model data dist_same dist_diff discriminant_score i_dist_same
       i_dist_diff [] gradient_buffer h = (Inr (), h)"
| "gradient_loop_heap dobj strat model data dist_same dist_diff discriminant_score i_dist_same
       i_dist_diff (i_prototype # rest) gradient_buffer h =
     (case winner_update_heap dobj strat model data dist_same dist_diff discriminant_score
             i_dist_same True i_prototype gradient_buffer h of
        (Inl e, h1) \<Rightarrow> (Inl e, h1)
      | (Inr _, h1) \<Rightarrow>
          (case winner_update_heap dobj strat model data dist_same dist_diff discriminant_score
                  i_dist_diff False i_prototype gradient_buffer h1 of
             (Inl e, h2) \<Rightarrow> (Inl e, h2)
           | (Inr _, h2) \<Rightarrow>
               gradient_loop_heap dobj strat model data dist_same dist_diff discriminant_score
                 i_dist_same i_dist_diff rest gradient_buffer h2))"

definition GLO_gradient_heap ::
  "'l distance_object \<Rightarrow> 'l strategies \<Rightarrow> model_refs \<Rightarrow> ref \<Rightarrow> ref \<Rightarrow> 'l heap
     \<Rightarrow> (error + ref) \<times> 'l heap" where
  "GLO_gradient_heap dobj strat model data labels h =
     (case compute_distance_heap dobj data labels model h of
        (Inl e, h1) \<Rightarrow> (Inl e, h1)
      | (Inr (dist_same, dist_diff, i_dist_same, i_dist_diff), h1) \<Rightarrow>
          let discriminant_score = discriminant_fn strat dist_same dist_diff;
              (gradient_buffer, h2) =
                alloc (Vec (replicate (length (get_variables (read_model h1 model))) (Fin 0))) h1
          in case gradient_loop_heap dobj strat model data dist_same dist_diff
                    discriminant_score i_dist_same i_dist_diff
                    [0..<length (model_prototypes_labels (read_model h2 model))]
                    gradient_buffer h2 of
               (Inl e, h3) \<Rightarrow> (Inl e, h3)
             | (Inr _, h3) \<Rightarrow> (Inr gradient_buffer, h3))"

text \<open>
  A store with the sample of the example (with a second, missing feature value), its label,
  and the model with three prototypes, and the distance of the sources as an object.
\<close>

definition example_heap :: "nat heap" where
  "example_heap =
     [Mat (mk_ndarray 2 1 [[Fin 2], [NaN]]), Labels [0, 1],
      Mat (mk_ndarray 3 1 [[Fin 0], [Fin 1], [Fin 5]]), Mat (mk_ndarray 1 1 [[Fin 1]]),
      Labels [0, 1, 1]]"

definition example_model_refs :: model_refs where
  "example_model_refs =
     \<lparr>prototypes_ref = Whole 2, omega_ref = Whole 3, prototypes_labels_ref = Whole 4\<rparr>"

definition ASNE_object :: "'l distance_object" where
  "ASNE_object = \<lparr>call_heap = ASNE_call_heap, gradient_heap = ASNE_gradient_heap\<rparr>"

section \<open>Properties\<close>

lemmas array_defs =
  mk_ndarray_def wf_ndarray_def size_nd_def col_def transpose_nd_def vecmat_def matvec_def
  matmul_def dot_def fsum_def fsub_def nan_to_zero_def inf_of_sign_def

lemmas distance_defs =
  ASNE_call_def pairwise_distances_def check_array_allow_nan_def
  adaptive_squared_nan_euclidean_def lambda_of_def power2_nd_def

lemmas gradient_defs =
  ASNE_gradient_def get_model_params_def zeros_def assign_slice_def assign_columns_def
  masked_difference_def prototype_gradient_def omega_gradient_def reshape_rows_def

text \<open>
  C1 (the claim fails on the code). \<open>__call__\<close> squares what the metric callable returns,
  and the callable already returns \<open>(x - w)\<^sup>T \<Lambda> (x - w)\<close>. For one sample \<open>2\<close>, one
  prototype \<open>0\<close> and \<open>\<Omega> = (1)\<close> the returned entry is 16, where the adaptive squared
  distance of the documentation is 4.
\<close>

theorem ASNE_call_squares_twice:
  "ASNE_call (mk_ndarray 1 1 [[Fin 2]])
      \<lparr>model_prototypes = mk_ndarray 1 1 [[Fin 0]], model_omega = mk_ndarray 1 1 [[Fin 1]],
       model_prototypes_labels = [0::nat]\<rparr>
     = Inr (mk_ndarray 1 1 [[Fin 16]])
   \<and> adaptive_squared_distance [Fin 2] [Fin 0] (mk_ndarray 1 1 [[Fin 1]]) = Fin 4"
  by (simp add: distance_defs adaptive_squared_distance_def array_defs)

subsection \<open>Arithmetic on the special values\<close>

lemma fmul_commute: "fmul a b = fmul b a"
  by (cases a; cases b; simp add: inf_of_sign_def)

lemma fmul_const_left_commute: "c \<noteq> 0 \<Longrightarrow> fmul a (fmul (Fin c) b) = fmul (Fin c) (fmul a b)"
  by (cases a; cases b; simp add: inf_of_sign_def zero_less_mult_iff mult_less_0_iff; argo?)

lemma fmul_const_assoc: "c \<noteq> 0 \<Longrightarrow> fmul (fmul (Fin c) a) b = fmul (Fin c) (fmul a b)"
  by (cases a; cases b; simp add: inf_of_sign_def zero_less_mult_iff mult_less_0_iff; argo?)

lemma fmul_const_distrib:
  "c \<noteq> 0 \<Longrightarrow> fmul (Fin c) (fadd a b) = fadd (fmul (Fin c) a) (fmul (Fin c) b)"
  by (cases a; cases b; simp add: inf_of_sign_def algebra_simps)

lemma nan_to_zero_scale: "c \<noteq> 0 \<Longrightarrow> nan_to_zero (fmul (Fin c) a) = fmul (Fin c) (nan_to_zero a)"
  by (cases a; simp add: inf_of_sign_def nan_to_zero_def)

lemma nan_to_zero_self_difference: "nan_to_zero (fsub a a) = Fin 0"
  by (cases a; simp add: fsub_def nan_to_zero_def)

lemma nan_to_zero_NaN_difference: "nan_to_zero (fsub NaN a) = Fin 0"
  by (simp add: fsub_def nan_to_zero_def)

lemma dot_Nil [simp]: "dot [] ys = Fin 0" "dot xs [] = Fin 0"
  by (simp_all add: dot_def fsum_def)

lemma dot_Cons [simp]: "dot (x # xs) (y # ys) = fadd (fmul x y) (dot xs ys)"
  by (simp add: dot_def fsum_def)

lemma dot_commute: "dot a b = dot b a"
proof (induction a arbitrary: b)
  case Nil
  show ?case by simp
next
  case (Cons x xs)
  show ?case
  proof (cases b)
    case Nil
    then show ?thesis by simp
  next
    case (Cons y ys)
    then show ?thesis using Cons.IH [of ys] by (simp add: fmul_commute)
  qed
qed

lemma dot_scale_left:
  assumes "c \<noteq> 0"
  shows "dot (map (fmul (Fin c)) a) b = fmul (Fin c) (dot a b)"
proof (induction a arbitrary: b)
  case Nil
  show ?case by simp
next
  case (Cons x xs)
  show ?case
  proof (cases b)
    case Nil
    then show ?thesis by simp
  next
    case (Cons y ys)
    then show ?thesis
      using Cons.IH [of ys] assms by (simp add: fmul_const_assoc fmul_const_distrib)
  qed
qed

lemma nth_concat_uniform:
  assumes "\<forall>r \<in> set xss. length r = m" "i < length xss" "k < m"
  shows "concat xss ! (i * m + k) = xss ! i ! k"
  using assms
proof (induction xss arbitrary: i)
  case Nil
  then show ?case by simp
next
  case (Cons r rs)
  show ?case
  proof (cases i)
    case 0
    then show ?thesis using Cons.prems by (simp add: nth_append)
  next
    case (Suc i')
    then show ?thesis using Cons.prems Cons.IH [of i'] by (simp add: nth_append)
  qed
qed

lemma length_concat_uniform:
  "\<forall>r \<in> set xss. length r = m \<Longrightarrow> length (concat xss) = length xss * m"
  by (induction xss) simp_all

subsection \<open>The distance gradient\<close>

lemma wf_rows_nth: "wf_ndarray A \<Longrightarrow> i < shape0 A \<Longrightarrow> length (rows A ! i) = shape1 A"
  by (simp add: wf_ndarray_def list_all_length)

lemma wf_length_rows: "wf_ndarray A \<Longrightarrow> length (rows A) = shape0 A"
  by (simp add: wf_ndarray_def)

lemma rows_lambda_of:
  "rows (lambda_of omega) =
     map (\<lambda>i. map (\<lambda>k. dot (col omega i) (col omega k)) [0..<shape1 omega]) [0..<shape1 omega]"
  by (simp add: lambda_of_def matmul_def transpose_nd_def mk_ndarray_def vecmat_def)

lemma shape_lambda_of [simp]:
  "shape0 (lambda_of omega) = shape1 omega" "shape1 (lambda_of omega) = shape1 omega"
  by (simp_all add: lambda_of_def matmul_def transpose_nd_def mk_ndarray_def)

lemma col_lambda_of:
  assumes "k < shape1 omega"
  shows "col (lambda_of omega) k = rows (lambda_of omega) ! k"
proof -
  have "col (lambda_of omega) k
          = map (\<lambda>i. dot (col omega i) (col omega k)) [0..<shape1 omega]"
    unfolding col_def [of "lambda_of omega"] rows_lambda_of using assms by simp
  also have "\<dots> = map (\<lambda>i. dot (col omega k) (col omega i)) [0..<shape1 omega]"
    by (simp add: dot_commute [of _ "col omega k"])
  also have "\<dots> = rows (lambda_of omega) ! k"
    unfolding rows_lambda_of using assms by simp
  finally show ?thesis .
qed

lemma length_masked_difference:
  "length (masked_difference x w) = min (length x) (length w)"
  by (simp add: masked_difference_def)

lemma scaled_masked_difference:
  "map nan_to_zero (map (fmul (Fin (- 2))) (map2 fsub x w))
     = map (fmul (Fin (- 2))) (masked_difference x w)"
  by (simp add: masked_difference_def nan_to_zero_scale)

lemma vecmat_lambda_scaled:
  "vecmat (map (fmul (Fin (- 2))) d) (lambda_of omega)
     = map (fmul (Fin (- 2))) (matvec (lambda_of omega) d)"
proof -
  have "vecmat (map (fmul (Fin (- 2))) d) (lambda_of omega)
          = map (\<lambda>k. fmul (Fin (- 2)) (dot (rows (lambda_of omega) ! k) d)) [0..<shape1 omega]"
    by (simp add: vecmat_def col_lambda_of dot_scale_left dot_commute [of d])
  also have "\<dots> = map (fmul (Fin (- 2))) (map (\<lambda>r. dot r d) (map (\<lambda>k. rows (lambda_of omega) ! k) [0..<shape1 omega]))"
    by (simp add: comp_def)
  also have "map (\<lambda>k. rows (lambda_of omega) ! k) [0..<shape1 omega] = rows (lambda_of omega)"
    by (rule nth_equalityI) (simp_all add: rows_lambda_of)
  finally show ?thesis by (simp add: matvec_def)
qed

lemma rows_prototype_gradient:
  "rows (prototype_gradient data w omega) = map (\<lambda>x. prototype_partial x w omega) (rows data)"
  unfolding prototype_gradient_def scaled_masked_difference Let_def matmul_def
  by (simp add: mk_ndarray_def vecmat_lambda_scaled prototype_partial_def)

lemma length_prototype_partial: "length (prototype_partial x w omega) = shape1 omega"
  by (simp add: prototype_partial_def matvec_def rows_lambda_of)

lemma col_transpose_nd:
  assumes "wf_ndarray D" "j < shape0 D"
  shows "col (transpose_nd D) j = rows D ! j"
proof (rule nth_equalityI)
  show "length (col (transpose_nd D) j) = length (rows D ! j)"
    using assms by (simp add: col_def transpose_nd_def mk_ndarray_def wf_rows_nth)
next
  fix k assume "k < length (col (transpose_nd D) j)"
  then have k: "k < shape1 D"
    by (simp add: col_def transpose_nd_def mk_ndarray_def)
  show "col (transpose_nd D) j ! k = rows D ! j ! k"
    using k assms by (simp add: col_def transpose_nd_def mk_ndarray_def wf_length_rows)
qed

lemma omega_gradient_nth:
  assumes "wf_ndarray data" "wf_ndarray omega" "j < shape0 data"
    and "length w = shape1 data" "shape1 omega = shape1 data"
  shows "omega_gradient data w omega ! j = omega_jacobian (rows data ! j) w omega"
proof -
  define D where "D = mk_ndarray (shape0 data) (shape1 data)
                        (map (\<lambda>x. masked_difference x w) (rows data))"
  define d where "d = masked_difference (rows data ! j) w"
  have wfD: "wf_ndarray D"
    using assms(1,4)
    by (auto simp: D_def wf_ndarray_def mk_ndarray_def list_all_iff length_masked_difference)
  have jD: "j < shape0 D" using assms(3) by (simp add: D_def mk_ndarray_def)
  have rowD: "rows D ! j = d"
    using assms(1,3) by (simp add: D_def d_def mk_ndarray_def wf_length_rows)
  have scaled: "rows (matmul omega (transpose_nd D)) ! i ! j = dot (rows omega ! i) d"
    if "i < shape0 omega" for i
  proof -
    have "rows (matmul omega (transpose_nd D)) ! i = vecmat (rows omega ! i) (transpose_nd D)"
      using that assms(2) by (simp add: matmul_def mk_ndarray_def wf_length_rows)
    moreover have "shape1 (transpose_nd D) = shape0 data"
      by (simp add: transpose_nd_def mk_ndarray_def D_def)
    ultimately show ?thesis
      using assms(3) col_transpose_nd [OF wfD jD] rowD by (simp add: vecmat_def)
  qed
  have "omega_gradient data w omega ! j
          = mk_ndarray (shape0 omega) (shape1 data)
              (map (\<lambda>i. map (\<lambda>k. fmul (rows (matmul omega (transpose_nd D)) ! i ! j)
                                       (fmul (Fin 2) (rows D ! j ! k)))
                             [0..<shape1 data])
                   [0..<shape0 omega])"
    using assms(3) unfolding omega_gradient_def Let_def D_def [symmetric]
    by (simp add: D_def mk_ndarray_def)
  also have "\<dots> = mk_ndarray (shape0 omega) (shape1 data)
              (map (\<lambda>i. map (\<lambda>k. fmul (Fin 2) (fmul (dot (rows omega ! i) d) (d ! k)))
                             [0..<shape1 data])
                   [0..<shape0 omega])"
    by (auto simp: scaled rowD fmul_const_left_commute mk_ndarray_def)
  also have "\<dots> = omega_jacobian (rows data ! j) w omega"
  proof -
    have "map (\<lambda>r. map (\<lambda>k. fmul (Fin 2) (fmul (dot r d) (d ! k))) [0..<shape1 omega])
              (rows omega)
          = map (\<lambda>i. map (\<lambda>k. fmul (Fin 2) (fmul (dot (rows omega ! i) d) (d ! k)))
                          [0..<shape1 data])
                [0..<shape0 omega]"
      using assms(2,5) by (intro nth_equalityI) (simp_all add: wf_length_rows)
    then show ?thesis
      by (simp add: omega_jacobian_def d_def [symmetric] assms(5))
  qed
  finally show ?thesis .
qed

lemma length_omega_gradient: "length (omega_gradient data w omega) = shape0 data"
  by (simp add: omega_gradient_def Let_def)

lemma rows_omega_jacobian_uniform:
  "\<forall>r \<in> set (rows (omega_jacobian x w omega)). length r = shape1 omega"
  by (simp add: omega_jacobian_def mk_ndarray_def Let_def)

lemma length_rows_omega_jacobian:
  "length (rows (omega_jacobian x w omega)) = length (rows omega)"
  by (simp add: omega_jacobian_def mk_ndarray_def Let_def)

lemma slice_offset_le: "i < P \<Longrightarrow> i * F + F \<le> P * (F::nat)"
  using mult_le_mono1 [of "Suc i" P F] by simp

lemma assign_slices_row:
  assumes "length pg = F" "i < P"
  shows "assign_slice (assign_slice (replicate (P * F + S) z) (i * F) (i * F + F) pg)
             (P * F) (P * F + S) og
           = replicate (i * F) z @ pg @ replicate ((P - Suc i) * F) z @ og"
proof -
  have le: "i * F + F \<le> P * F" using assms(2) by (rule slice_offset_le)
  have rest: "(P - Suc i) * F = P * F - (i * F + F)"
    by (simp add: diff_mult_distrib)
  have first: "assign_slice (replicate (P * F + S) z) (i * F) (i * F + F) pg
                 = replicate (i * F) z @ pg @ replicate (P * F - (i * F + F)) z @ replicate S z"
  proof -
    have "P * F + S - (i * F + F) = (P * F - (i * F + F)) + S" using le by simp
    then have "replicate (P * F + S - (i * F + F)) z
                 = replicate (P * F - (i * F + F)) z @ replicate S z"
      by (simp add: replicate_add)
    moreover have "min (P * F + S) (i * F) = i * F" using le by simp
    ultimately show ?thesis by (simp add: assign_slice_def)
  qed
  have len: "length (replicate (i * F) z @ pg @ replicate (P * F - (i * F + F)) z) = P * F"
    using le assms(1) by simp
  show ?thesis
    unfolding first assign_slice_def [of _ "P * F"] rest
    using len le assms(1) by simp
qed

lemma ASNE_gradient_rows:
  assumes ok: "shapes_ok data model" and i: "i < shape0 (model_prototypes model)"
  shows "ASNE_gradient data model i
           = Inr (mk_ndarray (shape0 data)
                    (size_nd (model_prototypes model) + size_nd (model_omega model))
                    (map (\<lambda>x. gradient_row x model i) (rows data)))"
proof -
  define F where "F = shape1 data"
  define P where "P = shape0 (model_prototypes model)"
  define S where "S = size_nd (model_omega model)"
  define w where "w = rows (model_prototypes model) ! i"
  define omega where "omega = model_omega model"
  have wfd: "wf_ndarray data" and wfo: "wf_ndarray omega"
    and wfp: "wf_ndarray (model_prototypes model)"
    and Fp: "shape1 (model_prototypes model) = F" and Fo: "shape1 omega = F"
    using ok by (simp_all add: shapes_ok_def F_def omega_def)
  have lw: "length w = F"
    using wfp i Fp by (simp add: w_def wf_rows_nth)
  have sz: "size_nd (model_prototypes model) = P * F"
    by (simp add: size_nd_def P_def Fp)
  have n: "length (rows data) = shape0 data" using wfd by (rule wf_length_rows)
  have row: "assign_slice
               (assign_slice (replicate (P * F + S) (Fin 0)) (i * F) (i * F + F)
                  (rows (prototype_gradient data w omega) ! j))
               (P * F) (P * F + S) (reshape_rows (omega_gradient data w omega) ! j)
             = gradient_row (rows data ! j) model i"
    if j: "j < shape0 data" for j
  proof -
    have pg: "rows (prototype_gradient data w omega) ! j = prototype_partial (rows data ! j) w omega"
      using j n by (simp add: rows_prototype_gradient)
    have og: "reshape_rows (omega_gradient data w omega) ! j
                = concat (rows (omega_jacobian (rows data ! j) w omega))"
      using j omega_gradient_nth [OF wfd wfo j, of w] lw Fo
      by (simp add: reshape_rows_def length_omega_gradient F_def)
    have "length (prototype_partial (rows data ! j) w omega) = F"
      by (simp add: length_prototype_partial Fo)
    then show ?thesis
      unfolding pg og using i
      by (simp add: assign_slices_row P_def gradient_row_def Let_def Fp w_def omega_def)
  qed
  have "ASNE_gradient data model i
          = Inr (mk_ndarray (shape0 data) (P * F + S)
                  (map (\<lambda>j. assign_slice
                     (assign_slice (replicate (P * F + S) (Fin 0)) (i * F) (i * F + F)
                        (rows (prototype_gradient data w omega) ! j))
                     (P * F) (P * F + S) (reshape_rows (omega_gradient data w omega) ! j))
                   [0..<shape0 data]))"
  proof -
    have "length (rows (prototype_gradient data w omega)) = shape0 data"
      by (simp add: rows_prototype_gradient n)
    moreover have "length (reshape_rows (omega_gradient data w omega)) = shape0 data"
      by (simp add: reshape_rows_def length_omega_gradient)
    ultimately show ?thesis
      using i
      by (auto simp: ASNE_gradient_def get_model_params_def Let_def zeros_def assign_columns_def
          mk_ndarray_def sz S_def P_def F_def w_def omega_def intro!: nth_equalityI)
  qed
  also have "map (\<lambda>j. assign_slice
                     (assign_slice (replicate (P * F + S) (Fin 0)) (i * F) (i * F + F)
                        (rows (prototype_gradient data w omega) ! j))
                     (P * F) (P * F + S) (reshape_rows (omega_gradient data w omega) ! j))
                   [0..<shape0 data]
             = map (\<lambda>x. gradient_row x model i) (rows data)"
    using n by (intro nth_equalityI) (simp_all add: row)
  finally show ?thesis by (simp add: sz S_def)
qed

lemma gradient_row_other:
  assumes "length pg = F" "q < P" "q \<noteq> i" "i < P" "k < F"
  shows "(replicate (i * F) z @ pg @ replicate ((P - Suc i) * F) z @ og) ! (q * F + k) = z"
proof (cases "q < i")
  case True
  then have "q * F + k < i * F"
    using slice_offset_le [of q i F] assms(5) by simp
  then show ?thesis by (simp add: nth_append)
next
  case False
  then have qi: "i < q" using assms(3) by simp
  then have lo: "i * F + F \<le> q * F"
    by (rule slice_offset_le)
  have hi: "q * F + F \<le> P * F" using assms(2) by (rule slice_offset_le)
  define m where "m = q * F + k - (i * F + F)"
  have idx: "q * F + k = length (replicate (i * F) z @ pg) + m"
    using lo assms(1) by (simp add: m_def)
  have "(P - Suc i) * F = P * F - (i * F + F)" by (simp add: diff_mult_distrib)
  then have m: "m < (P - Suc i) * F"
    using lo hi assms(5) by (simp add: m_def)
  have "(replicate (i * F) z @ pg @ replicate ((P - Suc i) * F) z @ og) ! (q * F + k)
          = ((replicate (i * F) z @ pg) @ (replicate ((P - Suc i) * F) z @ og)) ! (q * F + k)"
    by simp
  also have "\<dots> = (replicate ((P - Suc i) * F) z @ og) ! m"
    unfolding idx by (rule nth_append_length_plus)
  also have "\<dots> = z" using m by (simp add: nth_append)
  finally show ?thesis .
qed

lemma gradient_row_own:
  assumes "length pg = F" "k < F"
  shows "(replicate (i * F) z @ pg @ rest) ! (i * F + k) = pg ! k"
  using assms by (simp add: nth_append)

lemma gradient_row_omega:
  assumes "length pg = F" "i < P"
  shows "(replicate (i * F) z @ pg @ replicate ((P - Suc i) * F) z @ og) ! (P * F + m) = og ! m"
proof -
  have le: "i * F + F \<le> P * F" using assms(2) by (rule slice_offset_le)
  have "(P - Suc i) * F = P * F - (i * F + F)" by (simp add: diff_mult_distrib)
  then have "length (replicate (i * F) z @ pg @ replicate ((P - Suc i) * F) z) = P * F"
    using le assms(1) by simp
  then show ?thesis
    by (metis append.assoc nth_append_length_plus)
qed

lemma length_gradient_row:
  assumes "wf_ndarray (model_omega model)" "i < shape0 (model_prototypes model)"
    and "shape1 (model_omega model) = shape1 (model_prototypes model)"
  shows "length (gradient_row x model i)
           = size_nd (model_prototypes model) + size_nd (model_omega model)"
proof -
  let ?P = "shape0 (model_prototypes model)" and ?F = "shape1 (model_prototypes model)"
  have le: "i * ?F + ?F \<le> ?P * ?F" using assms(2) by (rule slice_offset_le)
  have "(?P - Suc i) * ?F = ?P * ?F - (i * ?F + ?F)" by (simp add: diff_mult_distrib)
  moreover have "length (concat (rows (omega_jacobian x (rows (model_prototypes model) ! i) (model_omega model))))
                  = size_nd (model_omega model)"
    using assms(1)
    by (simp add: length_concat_uniform [OF rows_omega_jacobian_uniform]
        length_rows_omega_jacobian wf_length_rows size_nd_def)
  ultimately show ?thesis
    using le assms(3) by (simp add: gradient_row_def Let_def length_prototype_partial size_nd_def)
qed

text \<open>
  C4. For a prototype index \<open>i\<close> in range and shapes that fit, \<open>gradient\<close> returns
  a matrix with one row per sample and \<open>prototypes.size + omega.size\<close> columns. In every
  row the columns of each other prototype are zero, the columns at the offset of prototype
  \<open>i\<close> hold \<open>-2 \<Lambda> (x - w\<^sub>i)\<close> (NaN differences zeroed, \<open>\<Lambda> = \<Omega>\<^sup>T \<Omega>\<close>), and the
  trailing \<open>omega.size\<close> columns hold the Jacobian with respect to \<open>\<Omega>\<close> in the row-major
  layout of \<open>\<Omega>\<close>.
\<close>

theorem ASNE_gradient_layout:
  assumes "shapes_ok data model" and "i < shape0 (model_prototypes model)"
  shows "\<exists>g. ASNE_gradient data model i = Inr g \<and> wf_ndarray g
           \<and> shape0 g = shape0 data
           \<and> shape1 g = size_nd (model_prototypes model) + size_nd (model_omega model)
           \<and> (\<forall>j<shape0 data. \<forall>k<shape1 data.
                (\<forall>q<shape0 (model_prototypes model).
                    q \<noteq> i \<longrightarrow> rows g ! j ! (q * shape1 data + k) = Fin 0)
              \<and> rows g ! j ! (i * shape1 data + k)
                  = prototype_partial (rows data ! j) (rows (model_prototypes model) ! i)
                      (model_omega model) ! k
              \<and> (\<forall>r<shape0 (model_omega model).
                    rows g ! j ! (size_nd (model_prototypes model) + r * shape1 (model_omega model) + k)
                      = rows (omega_jacobian (rows data ! j) (rows (model_prototypes model) ! i)
                                (model_omega model)) ! r ! k))"
proof -
  let ?P = "model_prototypes model" and ?O = "model_omega model"
  let ?w = "rows ?P ! i"
  let ?g = "mk_ndarray (shape0 data) (size_nd ?P + size_nd ?O)
              (map (\<lambda>x. gradient_row x model i) (rows data))"
  have wfd: "wf_ndarray data" and wfo: "wf_ndarray ?O"
    and Fp: "shape1 ?P = shape1 data" and Fo: "shape1 ?O = shape1 data"
    using assms(1) by (simp_all add: shapes_ok_def)
  have n: "length (rows data) = shape0 data" using wfd by (rule wf_length_rows)
  have len: "length (gradient_row x model i) = size_nd ?P + size_nd ?O" for x
    using wfo assms(2) Fp Fo by (simp add: length_gradient_row)
  have g: "ASNE_gradient data model i = Inr ?g"
    using assms by (rule ASNE_gradient_rows)
  have wfg: "wf_ndarray ?g"
    by (simp add: wf_ndarray_def mk_ndarray_def n list_all_iff len)
  have lpp: "length (prototype_partial x ?w ?O) = shape1 data" for x
    by (simp add: length_prototype_partial Fo)
  have entries: "(\<forall>q<shape0 ?P. q \<noteq> i \<longrightarrow> rows ?g ! j ! (q * shape1 data + k) = Fin 0)
      \<and> rows ?g ! j ! (i * shape1 data + k) = prototype_partial (rows data ! j) ?w ?O ! k
      \<and> (\<forall>r<shape0 ?O. rows ?g ! j ! (size_nd ?P + r * shape1 ?O + k)
             = rows (omega_jacobian (rows data ! j) ?w ?O) ! r ! k)"
    if j: "j < shape0 data" and k: "k < shape1 data" for j k
  proof -
    have row: "rows ?g ! j = gradient_row (rows data ! j) model i"
      using j n by (simp add: mk_ndarray_def)
    let ?x = "rows data ! j"
    have other: "gradient_row ?x model i ! (q * shape1 data + k) = Fin 0"
      if "q < shape0 ?P" "q \<noteq> i" for q
      unfolding gradient_row_def Let_def Fp
      using that assms(2) k by (intro gradient_row_other lpp)
    have own: "gradient_row ?x model i ! (i * shape1 data + k) = prototype_partial ?x ?w ?O ! k"
      unfolding gradient_row_def Let_def Fp
      using k by (intro gradient_row_own lpp)
    have om: "gradient_row ?x model i ! (size_nd ?P + r * shape1 ?O + k)
                = rows (omega_jacobian ?x ?w ?O) ! r ! k"
      if r: "r < shape0 ?O" for r
    proof -
      have "gradient_row ?x model i ! (shape0 ?P * shape1 data + (r * shape1 ?O + k))
              = concat (rows (omega_jacobian ?x ?w ?O)) ! (r * shape1 ?O + k)"
        unfolding gradient_row_def Let_def Fp
        using assms(2) by (intro gradient_row_omega lpp)
      also have "\<dots> = rows (omega_jacobian ?x ?w ?O) ! r ! k"
        using r k wfo Fo
        by (intro nth_concat_uniform rows_omega_jacobian_uniform)
           (simp_all add: length_rows_omega_jacobian wf_length_rows)
      finally show ?thesis by (simp add: size_nd_def Fp add.assoc)
    qed
    show ?thesis unfolding row using other own om by blast
  qed
  have "shape0 ?g = shape0 data" "shape1 ?g = size_nd ?P + size_nd ?O"
    by (simp_all add: mk_ndarray_def)
  with g wfg entries show ?thesis by blast
qed

theorem ASNE_gradient_layout_witness:
  "shapes_ok example_data example_model \<and> 0 < shape0 (model_prototypes example_model)
   \<and> (\<exists>g. ASNE_gradient example_data example_model 0 = Inr g \<and> shape1 g = 3
          \<and> rows g ! 0 ! 0 = Fin (- 4) \<and> rows g ! 0 ! 1 = Fin 0 \<and> rows g ! 0 ! 2 = Fin 8)"
proof -
  have ok: "shapes_ok example_data example_model"
    by (simp add: shapes_ok_def example_data_def example_model_def wf_ndarray_def mk_ndarray_def)
  have i: "0 < shape0 (model_prototypes example_model)"
    by (simp add: example_model_def mk_ndarray_def)
  from ASNE_gradient_layout [OF ok i] obtain g where
    g: "ASNE_gradient example_data example_model 0 = Inr g" and wf: "wf_ndarray g"
    and s0: "shape0 g = shape0 example_data"
    and s1: "shape1 g = size_nd (model_prototypes example_model) + size_nd (model_omega example_model)"
    and e: "\<forall>j<shape0 example_data. \<forall>k<shape1 example_data.
                (\<forall>q<shape0 (model_prototypes example_model).
                    q \<noteq> 0 \<longrightarrow> rows g ! j ! (q * shape1 example_data + k) = Fin 0)
              \<and> rows g ! j ! (0 * shape1 example_data + k)
                  = prototype_partial (rows example_data ! j) (rows (model_prototypes example_model) ! 0)
                      (model_omega example_model) ! k
              \<and> (\<forall>r<shape0 (model_omega example_model).
                    rows g ! j ! (size_nd (model_prototypes example_model) + r * shape1 (model_omega example_model) + k)
                      = rows (omega_jacobian (rows example_data ! j) (rows (model_prototypes example_model) ! 0)
                                (model_omega example_model)) ! r ! k)"
    by blast
  have sh: "shape0 g = 1" "shape1 g = 3"
    using s0 s1 by (simp_all add: example_data_def example_model_def mk_ndarray_def size_nd_def)
  from e have e0: "(\<forall>q<shape0 (model_prototypes example_model).
                    q \<noteq> 0 \<longrightarrow> rows g ! 0 ! (q * shape1 example_data + 0) = Fin 0)
              \<and> rows g ! 0 ! (0 * shape1 example_data + 0)
                  = prototype_partial (rows example_data ! 0) (rows (model_prototypes example_model) ! 0)
                      (model_omega example_model) ! 0
              \<and> (\<forall>r<shape0 (model_omega example_model).
                    rows g ! 0 ! (size_nd (model_prototypes example_model) + r * shape1 (model_omega example_model) + 0)
                      = rows (omega_jacobian (rows example_data ! 0) (rows (model_prototypes example_model) ! 0)
                                (model_omega example_model)) ! r ! 0)"
    by (simp add: example_data_def mk_ndarray_def)
  have a: "rows g ! 0 ! 0 = Fin (- 4)"
    using e0
    by (simp add: example_data_def example_model_def prototype_partial_def masked_difference_def
        lambda_of_def array_defs)
  have b: "rows g ! 0 ! 1 = Fin 0"
  proof -
    from e0 have "(1::nat) < shape0 (model_prototypes example_model) \<longrightarrow> (1::nat) \<noteq> 0 \<longrightarrow>
        rows g ! 0 ! (1 * shape1 example_data + 0) = Fin 0" by blast
    then show ?thesis by (simp add: example_data_def example_model_def mk_ndarray_def)
  qed
  have c: "rows g ! 0 ! 2 = Fin 8"
  proof -
    from e0 have "(0::nat) < shape0 (model_omega example_model) \<longrightarrow>
       rows g ! 0 ! (size_nd (model_prototypes example_model) + 0 * shape1 (model_omega example_model) + 0)
                      = rows (omega_jacobian (rows example_data ! 0) (rows (model_prototypes example_model) ! 0)
                                (model_omega example_model)) ! 0 ! 0" by blast
    then show ?thesis
      by (simp add: example_data_def example_model_def omega_jacobian_def masked_difference_def
          array_defs)
  qed
  from ok i g sh a b c show ?thesis by blast
qed

subsection \<open>Missing values\<close>

lemma masked_difference_nth:
  "k < length x \<Longrightarrow> k < length w \<Longrightarrow>
     masked_difference x w ! k = nan_to_zero (fsub (x ! k) (w ! k))"
  by (simp add: masked_difference_def)

lemma masked_difference_NaN:
  assumes "k < length x" "k < length w" "x ! k = NaN"
  shows "masked_difference x w ! k = Fin 0"
  using assms by (simp add: masked_difference_nth nan_to_zero_NaN_difference)

lemma masked_difference_replace:
  assumes "k < length x" "k < length w" "x ! k = NaN"
  shows "masked_difference (x[k := w ! k]) w = masked_difference x w"
proof (rule nth_equalityI)
  show "length (masked_difference (x[k := w ! k]) w) = length (masked_difference x w)"
    by (simp add: length_masked_difference)
next
  fix i assume "i < length (masked_difference (x[k := w ! k]) w)"
  then have i: "i < length x" "i < length w"
    by (simp_all add: length_masked_difference)
  show "masked_difference (x[k := w ! k]) w ! i = masked_difference x w ! i"
  proof (cases "i = k")
    case True
    then show ?thesis
      using assms by (simp add: masked_difference_nth nan_to_zero_NaN_difference
          nan_to_zero_self_difference)
  next
    case False
    then show ?thesis using i by (simp add: masked_difference_nth)
  qed
qed

lemma metric_masked:
  "adaptive_squared_nan_euclidean x w L
     = dot (vecmat (masked_difference x w) L) (masked_difference x w)"
  by (simp add: adaptive_squared_nan_euclidean_def masked_difference_def Let_def)

lemma gradient_row_masked:
  assumes "masked_difference x' (rows (model_prototypes model) ! i)
             = masked_difference x (rows (model_prototypes model) ! i)"
  shows "gradient_row x' model i = gradient_row x model i"
  using assms by (simp add: gradient_row_def prototype_partial_def omega_jacobian_def Let_def)

lemma isfinite_fadd: "isfinite a \<Longrightarrow> isfinite b \<Longrightarrow> isfinite (fadd a b)"
  by (cases a; cases b; simp)

lemma isfinite_fmul: "isfinite a \<Longrightarrow> isfinite b \<Longrightarrow> isfinite (fmul a b)"
  by (cases a; cases b; simp)

lemma isfinite_dot:
  "list_all isfinite a \<Longrightarrow> list_all isfinite b \<Longrightarrow> isfinite (dot a b)"
proof (induction a arbitrary: b)
  case Nil
  show ?case by simp
next
  case (Cons x xs)
  then show ?case by (cases b) (simp_all add: isfinite_fadd isfinite_fmul)
qed

lemma dot_zeros_left:
  "list_all isfinite b \<Longrightarrow> dot (replicate n (Fin 0)) b = Fin 0"
proof (induction n arbitrary: b)
  case 0
  show ?case by simp
next
  case (Suc n)
  then show ?case
  proof (cases b)
    case Nil
    then show ?thesis by simp
  next
    case (Cons y ys)
    with Suc show ?thesis by (cases y) simp_all
  qed
qed

lemma masked_difference_all_NaN:
  assumes "\<forall>e \<in> set x. e = NaN" "length w = length x"
  shows "masked_difference x w = replicate (length x) (Fin 0)"
proof (rule nth_equalityI)
  show "length (masked_difference x w) = length (replicate (length x) (Fin 0))"
    using assms(2) by (simp add: length_masked_difference)
next
  fix i assume "i < length (masked_difference x w)"
  then have i: "i < length x" "i < length w" by (simp_all add: length_masked_difference)
  then have "x ! i = NaN" using assms(1) by simp
  then show "masked_difference x w ! i = replicate (length x) (Fin 0) ! i"
    using i by (simp add: masked_difference_NaN)
qed

lemma col_all_finite:
  assumes "all_finite A" "wf_ndarray A" "k < shape1 A"
  shows "list_all isfinite (col A k)"
  using assms
  by (auto simp: all_finite_def wf_ndarray_def col_def list_all_iff)

lemma lambda_of_finite:
  assumes "all_finite omega" "wf_ndarray omega"
  shows "all_finite (lambda_of omega)"
proof -
  have "isfinite (dot (col omega i) (col omega k))"
    if "i < shape1 omega" "k < shape1 omega" for i k
    using that assms by (intro isfinite_dot col_all_finite)
  then show ?thesis
    by (simp add: all_finite_def rows_lambda_of list_all_iff)
qed

lemma metric_all_NaN:
  assumes "\<forall>e \<in> set x. e = NaN" "length w = length x" "all_finite L" "wf_ndarray L"
  shows "adaptive_squared_nan_euclidean x w L = Fin 0"
proof -
  have "list_all isfinite (col L k)" if "k < shape1 L" for k
    using assms(3,4) that by (rule col_all_finite)
  then have "vecmat (replicate (length x) (Fin 0)) L = replicate (shape1 L) (Fin 0)"
    by (intro nth_equalityI) (simp_all add: vecmat_def dot_zeros_left)
  moreover have "dot (replicate (shape1 L) (Fin 0)) (replicate (length x) (Fin 0)) = Fin 0"
    by (intro dot_zeros_left) (simp add: list_all_iff)
  ultimately show ?thesis
    using assms(1,2) by (simp add: metric_masked masked_difference_all_NaN)
qed

lemma wf_lambda_of: "wf_ndarray (lambda_of omega)"
  by (simp add: wf_ndarray_def rows_lambda_of list_all_iff)

lemma ASNE_call_valid:
  assumes "check_array_allow_nan data" "check_array_allow_nan (model_prototypes model)"
    and "shape1 (model_prototypes model) = shape1 data"
  shows "ASNE_call data model
           = Inr (mk_ndarray (shape0 data) (shape0 (model_prototypes model))
                   (map (\<lambda>x. map (\<lambda>w. fmul (adaptive_squared_nan_euclidean x w
                                                 (lambda_of (model_omega model)))
                                              (adaptive_squared_nan_euclidean x w
                                                 (lambda_of (model_omega model))))
                                   (rows (model_prototypes model)))
                        (rows data)))"
  using assms by (simp add: ASNE_call_def pairwise_distances_def power2_nd_def mk_ndarray_def comp_def)

lemma rows_set_entry: "rows (set_entry A j k v) = (rows A)[j := (rows A ! j)[k := v]]"
  by (simp add: set_entry_def)

lemma shape_set_entry [simp]:
  "shape0 (set_entry A j k v) = shape0 A" "shape1 (set_entry A j k v) = shape1 A"
  by (simp_all add: set_entry_def)

lemma wf_set_entry:
  assumes "wf_ndarray A"
  shows "wf_ndarray (set_entry A j k v)"
proof (cases "j < length (rows A)")
  case True
  have "length ((rows A)[j := (rows A ! j)[k := v]] ! n) = shape1 A" if "n < length (rows A)" for n
    using that assms True by (cases "n = j") (simp_all add: wf_ndarray_def list_all_length)
  then show ?thesis
    using assms by (simp add: wf_ndarray_def set_entry_def list_all_length)
next
  case False
  then have "(rows A)[j := (rows A ! j)[k := v]] = rows A"
    by (intro list_update_beyond) simp
  then show ?thesis using assms by (simp add: wf_ndarray_def set_entry_def)
qed

lemma check_set_entry:
  assumes "check_array_allow_nan A" "\<not> isinf v"
  shows "check_array_allow_nan (set_entry A j k v)"
proof (cases "j < length (rows A)")
  case True
  have "\<not> isinf ((rows A)[j := (rows A ! j)[k := v]] ! n ! m)"
    if "n < length (rows A)" "m < length ((rows A)[j := (rows A ! j)[k := v]] ! n)" for n m
  proof (cases "n = j")
    case nj: True
    show ?thesis
      using that assms True nj
      by (cases "m = k") (simp_all add: check_array_allow_nan_def list_all_length)
  next
    case False
    then show ?thesis
      using that assms by (simp add: check_array_allow_nan_def list_all_length)
  qed
  then show ?thesis
    using assms by (simp add: check_array_allow_nan_def set_entry_def list_all_length)
next
  case False
  then have "(rows A)[j := (rows A ! j)[k := v]] = rows A"
    by (intro list_update_beyond) simp
  then show ?thesis using assms by (simp add: check_array_allow_nan_def set_entry_def)
qed

lemma check_entry:
  assumes "check_array_allow_nan A" "wf_ndarray A" "p < shape0 A" "k < shape1 A"
  shows "\<not> isinf (rows A ! p ! k)"
  using assms by (simp add: check_array_allow_nan_def wf_ndarray_def list_all_length)

text \<open>
  C5. A NaN feature contributes zero. For a sample \<open>j\<close> whose feature \<open>k\<close> is NaN and any
  prototype \<open>p\<close>: the masked difference at \<open>k\<close> is zero; the distance gradient is the one
  of the data with that feature replaced by the prototype's value; \<open>__call__\<close> raises
  nothing on either input and gives the same distance for the pair; and when all features of
  the sample are NaN (and \<open>\<Omega>\<close> is finite) its distance to every prototype is zero.
\<close>

theorem nan_feature_contributes_zero:
  assumes ok: "shapes_ok data model"
    and valid: "check_array_allow_nan data" "check_array_allow_nan (model_prototypes model)"
    and j: "j < shape0 data" and k: "k < shape1 data"
    and p: "p < shape0 (model_prototypes model)"
    and nan: "rows data ! j ! k = NaN"
  shows "masked_difference (rows data ! j) (rows (model_prototypes model) ! p) ! k = Fin 0
     \<and> ASNE_gradient (set_entry data j k (rows (model_prototypes model) ! p ! k)) model p
         = ASNE_gradient data model p
     \<and> (\<exists>D D'. ASNE_call data model = Inr D
           \<and> ASNE_call (set_entry data j k (rows (model_prototypes model) ! p ! k)) model = Inr D'
           \<and> rows D' ! j ! p = rows D ! j ! p
           \<and> ((\<forall>e \<in> set (rows data ! j). e = NaN) \<and> all_finite (model_omega model)
                \<longrightarrow> (\<forall>q<shape0 (model_prototypes model). rows D ! j ! q = Fin 0)))"
proof -
  let ?P = "model_prototypes model" and ?O = "model_omega model"
  let ?x = "rows data ! j" and ?w = "rows ?P ! p"
  let ?data' = "set_entry data j k (?w ! k)"
  let ?metric = "\<lambda>x w. adaptive_squared_nan_euclidean x w (lambda_of ?O)"
  have wfd: "wf_ndarray data" and wfp: "wf_ndarray ?P" and wfo: "wf_ndarray ?O"
    and Fp: "shape1 ?P = shape1 data" and Fo: "shape1 ?O = shape1 data"
    using ok by (simp_all add: shapes_ok_def)
  have n: "length (rows data) = shape0 data" and np: "length (rows ?P) = shape0 ?P"
    using wfd wfp by (simp_all add: wf_length_rows)
  have lx: "length ?x = shape1 data" using wfd j by (rule wf_rows_nth)
  have lw: "length ?w = shape1 data" using wfp p Fp by (simp add: wf_rows_nth)
  have kx: "k < length ?x" and kw: "k < length ?w" using k lx lw by simp_all
  have zero: "masked_difference ?x ?w ! k = Fin 0"
    using kx kw nan by (rule masked_difference_NaN)
  have same: "masked_difference (?x[k := ?w ! k]) ?w = masked_difference ?x ?w"
    using kx kw nan by (rule masked_difference_replace)
  have ok': "shapes_ok ?data' model"
    using ok by (simp add: shapes_ok_def wf_set_entry)
  have rows': "rows ?data' = (rows data)[j := ?x[k := ?w ! k]]"
    by (rule rows_set_entry)
  have grad: "ASNE_gradient ?data' model p = ASNE_gradient data model p"
  proof -
    have "map (\<lambda>x. gradient_row x model p) (rows ?data')
            = (map (\<lambda>x. gradient_row x model p) (rows data))
                [j := gradient_row (?x[k := ?w ! k]) model p]"
      unfolding rows' by (rule map_update)
    also have "gradient_row (?x[k := ?w ! k]) model p = gradient_row ?x model p"
      using same by (rule gradient_row_masked)
    also have "(map (\<lambda>x. gradient_row x model p) (rows data))[j := gradient_row ?x model p]
                 = map (\<lambda>x. gradient_row x model p) (rows data)"
      using j n by (intro nth_equalityI) (simp_all add: nth_list_update)
    finally show ?thesis
      using ASNE_gradient_rows [OF ok p] ASNE_gradient_rows [OF ok' p] by simp
  qed
  have ninf: "\<not> isinf (?w ! k)"
    using valid(2) wfp p k Fp by (intro check_entry) simp_all
  have valid': "check_array_allow_nan ?data'"
    using valid(1) ninf by (rule check_set_entry)
  define D where "D = mk_ndarray (shape0 data) (shape0 ?P)
      (map (\<lambda>x. map (\<lambda>w. fmul (?metric x w) (?metric x w)) (rows ?P)) (rows data))"
  define D' where "D' = mk_ndarray (shape0 ?data') (shape0 ?P)
      (map (\<lambda>x. map (\<lambda>w. fmul (?metric x w) (?metric x w)) (rows ?P)) (rows ?data'))"
  have call: "ASNE_call data model = Inr D"
    unfolding D_def using valid Fp by (rule ASNE_call_valid)
  have call': "ASNE_call ?data' model = Inr D'"
    unfolding D'_def using valid' valid(2) Fp by (intro ASNE_call_valid) simp_all
  have entry: "rows D ! j ! q = fmul (?metric ?x (rows ?P ! q)) (?metric ?x (rows ?P ! q))"
    if "q < shape0 ?P" for q
    using that j n np by (simp add: D_def mk_ndarray_def)
  have entry': "rows D' ! j ! p = fmul (?metric (?x[k := ?w ! k]) ?w) (?metric (?x[k := ?w ! k]) ?w)"
    using p j n np by (simp add: D'_def mk_ndarray_def rows')
  have eq: "rows D' ! j ! p = rows D ! j ! p"
    using entry [OF p] entry' same by (simp add: metric_masked)
  have full: "rows D ! j ! q = Fin 0"
    if all: "\<forall>e \<in> set ?x. e = NaN" and fin: "all_finite ?O" and q: "q < shape0 ?P" for q
  proof -
    have "length (rows ?P ! q) = length ?x"
      using wfp q Fp lx by (simp add: wf_rows_nth)
    then have "?metric ?x (rows ?P ! q) = Fin 0"
      using all lambda_of_finite [OF fin wfo] wf_lambda_of by (intro metric_all_NaN)
    then show ?thesis using entry [OF q] by simp
  qed
  show ?thesis
    using zero grad call call' eq full by blast
qed

theorem nan_feature_contributes_zero_witness:
  "shapes_ok example_nan_data example_model
   \<and> check_array_allow_nan example_nan_data
   \<and> check_array_allow_nan (model_prototypes example_model)
   \<and> 0 < shape0 example_nan_data \<and> 0 < shape1 example_nan_data
   \<and> 0 < shape0 (model_prototypes example_model)
   \<and> rows example_nan_data ! 0 = [NaN]
   \<and> all_finite (model_omega example_model)
   \<and> masked_difference [NaN] [Fin 0] ! 0 = Fin 0
   \<and> ASNE_gradient (mk_ndarray 1 1 [[Fin 0]]) example_model 0
        = ASNE_gradient example_nan_data example_model 0
   \<and> (\<exists>D. ASNE_call example_nan_data example_model = Inr D
          \<and> rows D ! 0 ! 0 = Fin 0 \<and> rows D ! 0 ! 1 = Fin 0)"
proof -
  have ok: "shapes_ok example_nan_data example_model"
    by (simp add: shapes_ok_def example_nan_data_def example_model_def wf_ndarray_def mk_ndarray_def)
  have v1: "check_array_allow_nan example_nan_data"
    by (simp add: check_array_allow_nan_def example_nan_data_def mk_ndarray_def)
  have v2: "check_array_allow_nan (model_prototypes example_model)"
    by (simp add: check_array_allow_nan_def example_model_def mk_ndarray_def)
  have j: "0 < shape0 example_nan_data" and k: "0 < shape1 example_nan_data"
    by (simp_all add: example_nan_data_def mk_ndarray_def)
  have p: "0 < shape0 (model_prototypes example_model)"
    by (simp add: example_model_def mk_ndarray_def)
  have row: "rows example_nan_data ! 0 = [NaN]"
    by (simp add: example_nan_data_def mk_ndarray_def)
  then have nan: "rows example_nan_data ! 0 ! 0 = NaN" by simp
  have fin: "all_finite (model_omega example_model)"
    by (simp add: all_finite_def example_model_def mk_ndarray_def)
  have w: "rows (model_prototypes example_model) ! 0 = [Fin 0]"
    by (simp add: example_model_def mk_ndarray_def)
  have d': "set_entry example_nan_data 0 0 (Fin 0) = mk_ndarray 1 1 [[Fin 0]]"
    by (simp add: set_entry_def example_nan_data_def mk_ndarray_def)
  note inst = nan_feature_contributes_zero [OF ok v1 v2 j k p nan, unfolded row w]
  from inst have z: "masked_difference [NaN] [Fin 0] ! 0 = Fin 0"
    by simp
  from inst have g: "ASNE_gradient (mk_ndarray 1 1 [[Fin 0]]) example_model 0
              = ASNE_gradient example_nan_data example_model 0"
    by (simp add: d')
  from inst have ex: "\<exists>D. ASNE_call example_nan_data example_model = Inr D
               \<and> ((\<forall>e \<in> set [NaN]. e = NaN) \<and> all_finite (model_omega example_model)
                    \<longrightarrow> (\<forall>q<shape0 (model_prototypes example_model). rows D ! 0 ! q = Fin 0))"
    by blast
  from ex fin obtain D where D: "ASNE_call example_nan_data example_model = Inr D"
    and all: "\<forall>q<shape0 (model_prototypes example_model). rows D ! 0 ! q = Fin 0"
    by auto
  have "shape0 (model_prototypes example_model) = 2"
    by (simp add: example_model_def mk_ndarray_def)
  with all have "rows D ! 0 ! 0 = Fin 0" "rows D ! 0 ! 1 = Fin 0" by simp_all
  with ok v1 v2 j k p row fin z g D show ?thesis by blast
qed

subsection \<open>The objective\<close>

lemma length_add_partial_gradient:
  "length (add_partial_gradient model buf c i) = length buf"
  by (simp add: add_partial_gradient_def Let_def)

lemma add_partial_gradient_outside:
  assumes "k < length buf" "k < size_nd (model_prototypes model)"
    and "\<not> (i * shape1 (model_prototypes model) \<le> k
            \<and> k < i * shape1 (model_prototypes model) + shape1 (model_prototypes model))"
  shows "add_partial_gradient model buf c i ! k = buf ! k"
  using assms by (auto simp: add_partial_gradient_def Let_def)

lemma any_winner: "list_ex id (map (\<lambda>j. i = j) i_dist) \<longleftrightarrow> i \<in> set i_dist"
  by (auto simp: list_ex_iff)

lemma winner_update_no_winner:
  assumes "i \<notin> set i_dist"
  shows "winner_update strat model data ds dd score i_dist b i buf = Inr buf"
  using assms by (simp add: winner_update_def any_winner)

lemma winner_update_outside:
  assumes "winner_update strat model data ds dd score i_dist b i buf = Inr buf'"
  shows "length buf' = length buf"
    and "k < length buf \<Longrightarrow> k < size_nd (model_prototypes model) \<Longrightarrow>
         \<not> (i * shape1 (model_prototypes model) \<le> k
            \<and> k < i * shape1 (model_prototypes model) + shape1 (model_prototypes model)) \<Longrightarrow>
         buf' ! k = buf ! k"
  using assms
  by (auto simp: winner_update_def Let_def length_add_partial_gradient
      add_partial_gradient_outside split: if_splits sum.splits)

lemma slices_disjoint:
  assumes "q \<noteq> p" "k < F"
  shows "\<not> (q * F \<le> p * F + k \<and> p * F + k < q * F + (F::nat))"
proof (cases "q < p")
  case True
  then have "q * F + F \<le> p * F" by (rule slice_offset_le)
  then show ?thesis by simp
next
  case False
  then have "p < q" using assms(1) by simp
  then have "p * F + F \<le> q * F" by (rule slice_offset_le)
  then show ?thesis using assms(2) by simp
qed

lemma gradient_loop_untouched:
  assumes "gradient_loop strat model data ds dd score i_same i_diff ps buf = Inr g"
    and "p \<notin> set i_same" "p \<notin> set i_diff"
    and "k < shape1 (model_prototypes model)"
    and "p * shape1 (model_prototypes model) + k < size_nd (model_prototypes model)"
    and "p * shape1 (model_prototypes model) + k < length buf"
  shows "length g = length buf \<and> g ! (p * shape1 (model_prototypes model) + k)
           = buf ! (p * shape1 (model_prototypes model) + k)"
  using assms
proof (induction ps arbitrary: buf)
  case Nil
  then show ?case by simp
next
  case (Cons q ps)
  let ?F = "shape1 (model_prototypes model)"
  from Cons.prems(1) obtain buf1 buf2 where
    u1: "winner_update strat model data ds dd score i_same True q buf = Inr buf1"
    and u2: "winner_update strat model data ds dd score i_diff False q buf1 = Inr buf2"
    and rest: "gradient_loop strat model data ds dd score i_same i_diff ps buf2 = Inr g"
    by (auto split: sum.splits)
  have step: "length buf2 = length buf \<and> buf2 ! (p * ?F + k) = buf ! (p * ?F + k)"
  proof (cases "q = p")
    case True
    then show ?thesis
      using u1 u2 Cons.prems(2,3) by (simp add: winner_update_no_winner)
  next
    case False
    then have out: "\<not> (q * ?F \<le> p * ?F + k \<and> p * ?F + k < q * ?F + ?F)"
      using Cons.prems(4) by (rule slices_disjoint)
    have l1: "length buf1 = length buf" using u1 by (rule winner_update_outside(1))
    have e1: "buf1 ! (p * ?F + k) = buf ! (p * ?F + k)"
      using u1 Cons.prems(6,5) out by (rule winner_update_outside(2))
    have l2: "length buf2 = length buf1" using u2 by (rule winner_update_outside(1))
    have e2: "buf2 ! (p * ?F + k) = buf1 ! (p * ?F + k)"
      using u2 _ Cons.prems(5) out by (rule winner_update_outside(2)) (simp add: l1 Cons.prems(6))
    show ?thesis using l1 l2 e1 e2 by simp
  qed
  then have "p * ?F + k < length buf2" using Cons.prems(6) by simp
  from Cons.IH [OF rest Cons.prems(2,3,4,5) this] step show ?case by simp
qed

lemma length_get_variables:
  assumes "wf_ndarray (model_prototypes model)" "wf_ndarray (model_omega model)"
  shows "length (get_variables model)
           = size_nd (model_prototypes model) + size_nd (model_omega model)"
proof -
  have "length (concat (rows A)) = size_nd A" if "wf_ndarray A" for A
    using that length_concat_uniform [of "rows A" "shape1 A"]
    by (simp add: wf_ndarray_def list_all_iff size_nd_def)
  then show ?thesis using assms by (simp add: get_variables_def)
qed

text \<open>
  C3. After one call of \<open>gradient\<close> on a batch, a prototype \<open>p\<close> that is the
  same-winner of no sample and the diff-winner of no sample has an all-zero slice in the
  returned gradient buffer: every entry at \<open>p * n_features + k\<close>, \<open>k < n_features\<close>, is 0.
\<close>

theorem zero_contribution:
  assumes "compute_distance strat data labels model
             = Inr (dist_same, dist_diff, i_dist_same, i_dist_diff)"
    and "GLO_gradient strat model data labels = Inr g"
    and "wf_ndarray (model_prototypes model)" "wf_ndarray (model_omega model)"
    and "p < shape0 (model_prototypes model)"
    and "p \<notin> set i_dist_same" "p \<notin> set i_dist_diff"
  shows "length g = size_nd (model_prototypes model) + size_nd (model_omega model)
     \<and> (\<forall>k<shape1 (model_prototypes model).
            g ! (p * shape1 (model_prototypes model) + k) = Fin 0)"
proof -
  let ?F = "shape1 (model_prototypes model)"
  let ?buf = "replicate (length (get_variables model)) (Fin 0)"
  have len: "length (get_variables model)
               = size_nd (model_prototypes model) + size_nd (model_omega model)"
    using assms(3,4) by (rule length_get_variables)
  have loop: "gradient_loop strat model data dist_same dist_diff
                (discriminant_fn strat dist_same dist_diff) i_dist_same i_dist_diff
                [0..<length (model_prototypes_labels model)] ?buf = Inr g"
    using assms(1,2) by (simp add: GLO_gradient_def Let_def)
  have inside: "p * ?F + k < size_nd (model_prototypes model)" if "k < ?F" for k
    using slice_offset_le [OF assms(5), of ?F] that by (simp add: size_nd_def)
  have "length g = length ?buf \<and> g ! (p * ?F + k) = ?buf ! (p * ?F + k)" if "k < ?F" for k
    using loop assms(6,7) that inside [OF that]
    by (rule gradient_loop_untouched) (use inside [OF that] len in simp)
  moreover have "?buf ! (p * ?F + k) = Fin 0" if "k < ?F" for k
    using inside [OF that] len by simp
  moreover have "length g = length ?buf"
    using loop
  proof -
    have "gradient_loop strat model data ds dd score i_same i_diff ps buf = Inr g'
            \<Longrightarrow> length g' = length buf" for ds dd score i_same i_diff ps buf g'
    proof (induction ps arbitrary: buf)
      case Nil
      then show ?case by simp
    next
      case (Cons q ps)
      then show ?case
        by (auto split: sum.splits dest!: winner_update_outside(1))
    qed
    with loop show ?thesis by blast
  qed
  ultimately show ?thesis using len by simp
qed

lemmas objective_defs =
  compute_distance_def find_min_def np_argmin_def fmin2_def GLO_call_def GLO_gradient_def
  get_variables_def add_partial_gradient_def select_def select_rows_def winner_update_def
  example_strategies_def Identity_call_def Identity_gradient_def relative_distance_def
  relative_distance_gradient_def

lemma example_compute_distance:
  "compute_distance example_strategies example_data [0] example_model3
     = Inr ([Fin 16], [Fin 1], [0], [1])"
  by (simp add: objective_defs example_data_def example_model3_def distance_defs array_defs)

lemma example_GLO_gradient:
  "GLO_gradient example_strategies example_model3 example_data [0]
     = Inr [Fin (- (8 / 289)), Fin (64 / 289), Fin 0, Fin (- (48 / 289))]"
  unfolding GLO_gradient_def example_compute_distance
  by (simp add: objective_defs example_data_def example_model3_def gradient_defs
      lambda_of_def array_defs upt_rec [of 0] upt_rec [of 1] upt_rec [of 2] upt_rec [of 3])










theorem zero_contribution_witness:
  "compute_distance example_strategies example_data [0] example_model3
     = Inr ([Fin 16], [Fin 1], [0], [1])
   \<and> GLO_gradient example_strategies example_model3 example_data [0]
       = Inr [Fin (- (8 / 289)), Fin (64 / 289), Fin 0, Fin (- (48 / 289))]
   \<and> wf_ndarray (model_prototypes example_model3) \<and> wf_ndarray (model_omega example_model3)
   \<and> 2 < shape0 (model_prototypes example_model3)
   \<and> 2 \<notin> set [0::nat] \<and> 2 \<notin> set [1::nat]
   \<and> [Fin (- (8 / 289)), Fin (64 / 289), Fin 0, Fin (- (48 / 289))] ! 2 = Fin 0"
proof -
  have wfp: "wf_ndarray (model_prototypes example_model3)"
    and wfo: "wf_ndarray (model_omega example_model3)"
    by (simp_all add: example_model3_def wf_ndarray_def mk_ndarray_def)
  have p: "2 < shape0 (model_prototypes example_model3)"
    by (simp add: example_model3_def mk_ndarray_def)
  have n1: "2 \<notin> set [0::nat]" and n2: "2 \<notin> set [1::nat]" by simp_all
  have f: "shape1 (model_prototypes example_model3) = 1"
    by (simp add: example_model3_def mk_ndarray_def)
  from zero_contribution [OF example_compute_distance example_GLO_gradient wfp wfo p n1 n2]
  have "[Fin (- (8 / 289)), Fin (64 / 289), Fin 0, Fin (- (48 / 289))] ! (2 * 1 + 0) = Fin 0"
    unfolding f by blast
  then have "[Fin (- (8 / 289)), Fin (64 / 289), Fin 0, Fin (- (48 / 289))] ! 2 = Fin 0"
    by simp
  with example_compute_distance example_GLO_gradient wfp wfo p n1 n2 show ?thesis
    by blast
qed



subsection \<open>Strategy selection\<close>

text \<open>
  C8 (the claim as stated fails). The alias table is consulted with the tag as given, so an
  alias in another case is not resolved: \<open>"SGD"\<close> reaches the class lookup unchanged and
  fails there, where \<open>"sgd"\<close> selects steepest gradient descent.
\<close>

theorem alias_lookup_case_sensitive:
  "import_from_string import_class_from_string ''SGD'' None = Inl UnknownClass
   \<and> import_from_string import_class_from_string ''sgd'' None = Inr SteepestGradientDescent"
  by (simp add: import_from_string_def ALIASES_def import_class_from_string_def
      solver_registry_def lower_def lower_char_def)

lemma import_from_string_without_list:
  "import_from_string h tag None = h (case map_of ALIASES tag of Some t \<Rightarrow> t | None \<Rightarrow> tag)"
  by (simp add: import_from_string_def)

lemma import_from_string_outside:
  "(case map_of ALIASES tag of Some t \<Rightarrow> t | None \<Rightarrow> tag) \<notin> set valid
     \<Longrightarrow> import_from_string h tag (Some valid) = Inl InvalidSolverType"
  by (simp add: import_from_string_def)

lemma import_from_string_inside:
  "(case map_of ALIASES tag of Some t \<Rightarrow> t | None \<Rightarrow> tag) \<in> set valid
     \<Longrightarrow> import_from_string h tag (Some valid)
           = h (case map_of ALIASES tag of Some t \<Rightarrow> t | None \<Rightarrow> tag)"
  by (simp add: import_from_string_def)

text \<open>
  C8, amended. A tag that is a key of the alias table, matched exactly, is replaced by its
  target, any other tag is left as it is; the table has the five entries \<open>sgd\<close>, \<open>bgd\<close>,
  \<open>bfgs\<close>, \<open>lbfgs\<close> and \<open>adam\<close>. When a list of valid strings is given, a resolved tag that
  is not in it raises ValueError; otherwise, without a list or with the resolved tag in the
  list, the result is that of the class lookup on the resolved tag, which matches names
  without regard to case and fails on a tag that is not a name.
\<close>

theorem import_from_string_resolution:
  "(map_of ALIASES tag = Some target \<longrightarrow> import_from_string h tag None = h target)
   \<and> (map_of ALIASES tag = None \<longrightarrow> import_from_string h tag None = h tag)
   \<and> ((case map_of ALIASES tag of Some t \<Rightarrow> t | None \<Rightarrow> tag) \<notin> set valid
        \<longrightarrow> import_from_string h tag (Some valid) = Inl InvalidSolverType)
   \<and> (map_of ALIASES tag = None \<and> map_of solver_registry (lower tag) = Some c
        \<longrightarrow> import_from_string import_class_from_string tag None = Inr c)
   \<and> (map_of ALIASES tag = None \<and> map_of solver_registry (lower tag) = None
        \<longrightarrow> (\<exists>e. import_from_string import_class_from_string tag valid_strings = Inl e))
   \<and> ((case map_of ALIASES tag of Some t \<Rightarrow> t | None \<Rightarrow> tag) \<in> set valid
        \<longrightarrow> import_from_string h tag (Some valid)
              = h (case map_of ALIASES tag of Some t \<Rightarrow> t | None \<Rightarrow> tag))
   \<and> ((case map_of ALIASES tag of Some t \<Rightarrow> t | None \<Rightarrow> tag) \<in> set valid
         \<and> map_of solver_registry (lower (case map_of ALIASES tag of Some t \<Rightarrow> t | None \<Rightarrow> tag))
             = Some c
        \<longrightarrow> import_from_string import_class_from_string tag (Some valid) = Inr c)
   \<and> (map_of solver_registry (lower (case map_of ALIASES tag of Some t \<Rightarrow> t | None \<Rightarrow> tag))
         = None
        \<longrightarrow> (\<exists>e. import_from_string import_class_from_string tag valid_strings = Inl e))
   \<and> (map_of ALIASES tag = Some target
        \<longleftrightarrow> (tag, target) \<in> {(''sgd'', ''steepest-gradient-descent''),
                             (''bgd'', ''steepest-gradient-descent''),
                             (''bfgs'', ''broyden-fletcher-goldfarb-shanno''),
                             (''lbfgs'', ''limited-memory-bfgs''),
                             (''adam'', ''adaptive-moment-estimation'')})"
proof -
  let ?resolved = "case map_of ALIASES tag of Some t \<Rightarrow> t | None \<Rightarrow> tag"
  note none = import_from_string_without_list [of _ tag]
  note out = import_from_string_outside [of tag valid]
  note inside = import_from_string_inside [of tag valid]
  have found: "import_class_from_string name = Inr c"
    if "map_of solver_registry (lower name) = Some c" for name c
    using that by (simp add: import_class_from_string_def)
  have unknown: "import_class_from_string name = Inl UnknownClass"
    if "map_of solver_registry (lower name) = None" for name
    using that by (simp add: import_class_from_string_def)
  have fails: "\<exists>e. import_from_string import_class_from_string tag valid_strings = Inl e"
    if "map_of solver_registry (lower ?resolved) = None"
  proof (cases valid_strings)
    case None
    then show ?thesis using none [of import_class_from_string] unknown [OF that] by simp
  next
    case (Some valid')
    show ?thesis
    proof (cases "?resolved \<in> set valid'")
      case True
      then have "import_from_string import_class_from_string tag (Some valid')
                   = import_class_from_string ?resolved"
        by (simp add: import_from_string_def)
      then show ?thesis using Some unknown [OF that] by simp
    next
      case False
      then have "import_from_string import_class_from_string tag (Some valid')
                   = Inl InvalidSolverType"
        by (simp add: import_from_string_def)
      then show ?thesis using Some by simp
    qed
  qed
  have table: "map_of ALIASES tag = Some target
     \<longleftrightarrow> (tag, target) \<in> {(''sgd'', ''steepest-gradient-descent''),
                          (''bgd'', ''steepest-gradient-descent''),
                          (''bfgs'', ''broyden-fletcher-goldfarb-shanno''),
                          (''lbfgs'', ''limited-memory-bfgs''),
                          (''adam'', ''adaptive-moment-estimation'')}"
    unfolding ALIASES_def by (simp del: list.inject char.inject) auto
  have c1: "map_of ALIASES tag = Some target \<longrightarrow> import_from_string h tag None = h target"
    using none [of h] by simp
  have c2: "map_of ALIASES tag = None \<longrightarrow> import_from_string h tag None = h tag"
    using none [of h] by simp
  have c3: "?resolved \<notin> set valid \<longrightarrow> import_from_string h tag (Some valid) = Inl InvalidSolverType"
    using out [of h] by blast
  have c4: "map_of ALIASES tag = None \<and> map_of solver_registry (lower tag) = Some c
              \<longrightarrow> import_from_string import_class_from_string tag None = Inr c"
    using none [of import_class_from_string] found [of tag c] by simp
  have c5: "map_of ALIASES tag = None \<and> map_of solver_registry (lower tag) = None
              \<longrightarrow> (\<exists>e. import_from_string import_class_from_string tag valid_strings = Inl e)"
    using fails by simp
  have c6: "?resolved \<in> set valid \<longrightarrow> import_from_string h tag (Some valid) = h ?resolved"
    using inside [of h] by blast
  have c7: "?resolved \<in> set valid \<and> map_of solver_registry (lower ?resolved) = Some c
              \<longrightarrow> import_from_string import_class_from_string tag (Some valid) = Inr c"
    using inside [of import_class_from_string] found [of ?resolved c] by simp
  have c8: "map_of solver_registry (lower ?resolved) = None
              \<longrightarrow> (\<exists>e. import_from_string import_class_from_string tag valid_strings = Inl e)"
    using fails by blast
  from c1 c2 c3 c4 c5 c6 c7 c8 table show ?thesis by blast
qed

theorem import_from_string_resolution_witness:
  "map_of ALIASES ''lbfgs'' = Some ''limited-memory-bfgs''
   \<and> import_from_string import_class_from_string ''lbfgs'' None = Inr LimitedMemoryBfgs
   \<and> map_of ALIASES ''Waypoint-Gradient-Descent'' = None
   \<and> map_of solver_registry (lower ''Waypoint-Gradient-Descent'') = Some WaypointGradientDescent
   \<and> import_from_string import_class_from_string ''Waypoint-Gradient-Descent'' None
        = Inr WaypointGradientDescent
   \<and> ''steepest-gradient-descent'' \<notin> set [''lbfgs'', ''bfgs'']
   \<and> import_from_string import_class_from_string ''sgd'' (Some [''lbfgs'', ''bfgs''])
        = Inl InvalidSolverType
   \<and> ''steepest-gradient-descent'' \<in> set [''steepest-gradient-descent'']
   \<and> import_from_string import_class_from_string ''sgd'' (Some [''steepest-gradient-descent''])
        = Inr SteepestGradientDescent
   \<and> map_of ALIASES ''newton'' = None \<and> map_of solver_registry (lower ''newton'') = None
   \<and> (\<exists>e. import_from_string import_class_from_string ''newton'' None = Inl e)"
proof -
  have a: "map_of ALIASES ''lbfgs'' = Some ''limited-memory-bfgs''"
    and b: "map_of ALIASES ''Waypoint-Gradient-Descent'' = None"
    and c: "map_of ALIASES ''sgd'' = Some ''steepest-gradient-descent''"
    and d: "map_of ALIASES ''newton'' = None"
    by (simp_all add: ALIASES_def)
  have r1: "import_class_from_string ''limited-memory-bfgs'' = Inr LimitedMemoryBfgs"
    by (simp add: import_class_from_string_def solver_registry_def lower_def lower_char_def)
  have r2: "map_of solver_registry (lower ''Waypoint-Gradient-Descent'')
              = Some WaypointGradientDescent"
    by (simp add: solver_registry_def lower_def lower_char_def)
  have r3: "map_of solver_registry (lower ''newton'') = None"
    by (simp add: solver_registry_def lower_def lower_char_def)
  have r4: "map_of solver_registry (lower ''steepest-gradient-descent'')
              = Some SteepestGradientDescent"
    by (simp add: solver_registry_def lower_def lower_char_def)
  have "import_from_string import_class_from_string ''lbfgs'' None = Inr LimitedMemoryBfgs"
    using import_from_string_resolution
            [of "''lbfgs''" "''limited-memory-bfgs''" import_class_from_string "[]"
               LimitedMemoryBfgs None] a r1
    by auto
  moreover have "import_from_string import_class_from_string ''Waypoint-Gradient-Descent'' None
                   = Inr WaypointGradientDescent"
    using import_from_string_resolution
            [of "''Waypoint-Gradient-Descent''" "[]" import_class_from_string "[]"
               WaypointGradientDescent None] b r2
    by blast
  moreover have "import_from_string import_class_from_string ''sgd'' (Some [''lbfgs'', ''bfgs''])
                   = Inl InvalidSolverType"
    using import_from_string_resolution
            [of "''sgd''" "''steepest-gradient-descent''" import_class_from_string
               "[''lbfgs'', ''bfgs'']" SteepestGradientDescent None] c
    by auto
  moreover have "import_from_string import_class_from_string ''sgd''
                     (Some [''steepest-gradient-descent''])
                   = Inr SteepestGradientDescent"
    using import_from_string_resolution
            [of "''sgd''" "''steepest-gradient-descent''" import_class_from_string
               "[''steepest-gradient-descent'']" SteepestGradientDescent None] c r4
    by auto
  moreover have "\<exists>e. import_from_string import_class_from_string ''newton'' None = Inl e"
    using import_from_string_resolution
            [of "''newton''" "[]" import_class_from_string "[]" SteepestGradientDescent None]
          d r3
    by blast
  ultimately show ?thesis using a b d r2 r3 by simp
qed

subsection \<open>The discriminant\<close>

text \<open>
  C7. When \<open>d_same + d_diff\<close> is exactly 0, the gradient of the relative-distance
  discriminant is exactly 0, on the same branch and on the other one.
\<close>

theorem relative_distance_gradient_zero_denominator:
  assumes "fadd dist_same dist_diff = Fin 0"
  shows "relative_distance_gradient dist_same dist_diff True = Fin 0
         \<and> relative_distance_gradient dist_same dist_diff False = Fin 0"
  using assms by (simp add: relative_distance_gradient_def)

theorem relative_distance_gradient_zero_denominator_witness:
  "fadd (Fin 0) (Fin 0) = Fin 0
   \<and> relative_distance_gradient (Fin 0) (Fin 0) True = Fin 0
   \<and> relative_distance_gradient (Fin 0) (Fin 0) False = Fin 0"
proof -
  have h: "fadd (Fin 0) (Fin 0) = Fin 0" by simp
  from relative_distance_gradient_zero_denominator [OF h] h show ?thesis by simp
qed

subsection \<open>The solver\<close>

lemma batch_update_step:
  assumes "batch_update env i step model batch batch_labels = (model1, latest1, e)"
  shows "follows_update_rule env e" and "step_run e = i" and "step_step_size e = step"
    and "step_model e = model"
    and "step_variables_read e = to_variables env model (get_params env model)"
    and "model1 = set_params env model (to_params env model (step_variables_committed e))"
  using assms by (auto simp: batch_update_def follows_update_rule_def Let_def)

lemma chained_append:
  "chained env m es1 m1 \<Longrightarrow> chained env m1 es2 m2 \<Longrightarrow> chained env m (es1 @ es2) m2"
  by (induction es1 arbitrary: m) auto

lemma run_batches_steps:
  assumes "run_batches env i step data labels batches model latest = Inr (model', latest', es)"
  shows "chained env model es model'
         \<and> (\<forall>e \<in> set es. follows_update_rule env e \<and> step_run e = i \<and> step_step_size e = step)"
  using assms
proof (induction batches arbitrary: model latest es)
  case Nil
  then show ?case by simp
next
  case (Cons b bs)
  from Cons.prems obtain batch batch_labels model1 latest1 e es' where
    u: "batch_update env i step model batch batch_labels = (model1, latest1, e)"
    and r: "run_batches env i step data labels bs model1 (Some latest1) = Inr (model', latest', es')"
    and es: "es = e # es'"
    by (auto split: sum.splits prod.splits)
  from Cons.IH [OF r] batch_update_step [OF u] es show ?case by auto
qed

lemma one_run_steps:
  assumes "one_run env solver data labels i model = Inr (model', latest', es)"
  shows "chained env model es model'
         \<and> (\<forall>e \<in> set es. follows_update_rule env e \<and> step_run e = i
               \<and> step_step_size e = annealed_step_size solver i)"
  using assms
  by (auto simp: one_run_def Let_def split: sum.splits dest!: run_batches_steps)

lemma runs_steps:
  assumes "runs env solver data labels is model = Inr (model', trace, es)"
  shows "chained env model es model'
         \<and> (\<forall>e \<in> set es. follows_update_rule env e \<and> step_run e \<in> set is
               \<and> step_step_size e = annealed_step_size solver (step_run e))"
  using assms
proof (induction "is" arbitrary: model trace es)
  case Nil
  then show ?case by simp
next
  case (Cons i rest)
  from Cons.prems obtain model1 latest es1 where
    o: "one_run env solver data labels i model = Inr (model1, latest, es1)"
    by (auto split: sum.splits)
  note s1 = one_run_steps [OF o]
  from Cons.prems o obtain answer where
    c: "callback_after_run env solver data labels i model1 latest = Inr answer"
    by (auto split: sum.splits)
  show ?case
  proof (cases "case answer of None \<Rightarrow> False | Some (state, stop) \<Rightarrow> stop")
    case True
    with Cons.prems o c have "model' = model1" "es = es1" by (simp_all add: Let_def)
    with s1 show ?thesis by auto
  next
    case False
    with Cons.prems o c obtain trace2 es2 where
      r: "runs env solver data labels rest model1 = Inr (model', trace2, es2)"
      and es: "es = es1 @ es2"
      by (auto simp: Let_def split: sum.splits)
    from Cons.IH [OF r] s1 es show ?thesis
      by (auto intro: chained_append)
  qed
qed

lemma solve_steps:
  assumes "solve env solver data labels model = Inr (model', trace, es)"
  shows "chained env model es model'
         \<and> (\<forall>e \<in> set es. follows_update_rule env e \<and> int (step_run e) < max_runs solver
               \<and> step_step_size e = annealed_step_size solver (step_run e))"
  using assms
  by (fastforce simp: solve_def Let_def split: if_splits sum.splits dest!: runs_steps)

lemma chained_reads_committed:
  assumes "chained env model es final"
    and "\<And>m v. to_variables env (set_params env m (to_params env m v))
                   (get_params env (set_params env m (to_params env m v))) = v"
    and "Suc k < length es"
  shows "step_variables_read (es ! Suc k) = step_variables_committed (es ! k)
         \<and> step_model (es ! Suc k)
             = set_params env (step_model (es ! k))
                 (to_params env (step_model (es ! k)) (step_variables_committed (es ! k)))"
  using assms(1,3)
proof (induction es arbitrary: model k)
  case Nil
  then show ?case by simp
next
  case (Cons e es)
  show ?case
  proof (cases k)
    case 0
    then obtain e' es' where es: "es = e' # es'" using Cons.prems(2) by (cases es) auto
    with Cons.prems(1) 0 show ?thesis by (simp add: assms(2))
  next
    case (Suc k')
    with Cons.prems Cons.IH [of _ k'] show ?thesis by auto
  qed
qed

lemmas solver_defs =
  solve_def one_run_def callback_after_run_def annealed_step_size_def batch_update_def
  py_range_def array_split_def asarray_def take_indices_def example_env_def

lemma upt_2: "[0..<2] = [0, Suc 0]"
  by (simp add: upt_rec)

lemma example_solve:
  "solve example_env example_sgd [1, 3] [0, 0] 0 = Inr (13 / 9, [Run 0, Run 1], example_steps)"
  by (simp add: solver_defs example_sgd_def example_steps_def upt_2 Let_def)

lemma example_solve_stop:
  "solve example_env example_sgd_stop [1, 3] [0, 0] 0
     = Inr (1, example_trace, take 2 example_steps)"
  by (simp add: solver_defs example_sgd_stop_def example_steps_def example_trace_def upt_2
      Let_def)

text \<open>
  C2. Whenever \<open>solve\<close> returns, every batch step of every run obeys the update rule with
  the step size \<open>step_size / (1 + i_run / max_runs)\<close> of its run, the steps lead from the
  model given to the model returned, and each step reads the model that the step before it
  committed; if the codec reads back the variables it was given, the variables a step reads
  are the variables the step before it committed.
\<close>

theorem sgd_batch_updates:
  assumes "solve env solver data labels model = Inr (model', trace, steps)"
    and "\<And>m v. to_variables env (set_params env m (to_params env m v))
                   (get_params env (set_params env m (to_params env m v))) = v"
  shows "chained env model steps model'
     \<and> (\<forall>e \<in> set steps.
            follows_update_rule env e \<and> int (step_run e) < max_runs solver
          \<and> step_step_size e
              = step_size solver / (1 + real (step_run e) / real_of_int (max_runs solver)))
     \<and> (\<forall>k. Suc k < length steps \<longrightarrow>
            step_variables_read (steps ! Suc k) = step_variables_committed (steps ! k)
          \<and> step_model (steps ! Suc k)
              = set_params env (step_model (steps ! k))
                  (to_params env (step_model (steps ! k))
                     (step_variables_committed (steps ! k))))"
proof -
  note s = solve_steps [OF assms(1)]
  then have c: "chained env model steps model'" by simp
  have "step_variables_read (steps ! Suc k) = step_variables_committed (steps ! k)
          \<and> step_model (steps ! Suc k)
              = set_params env (step_model (steps ! k))
                  (to_params env (step_model (steps ! k))
                     (step_variables_committed (steps ! k)))"
    if "Suc k < length steps" for k
    using c assms(2) that by (rule chained_reads_committed)
  with s show ?thesis by (simp add: annealed_step_size_def)
qed

theorem sgd_batch_updates_witness:
  "solve example_env example_sgd [1, 3] [0, 0] 0 = Inr (13 / 9, [Run 0, Run 1], example_steps)
   \<and> to_variables example_env (set_params example_env 0 (to_params example_env 0 5))
        (get_params example_env (set_params example_env 0 (to_params example_env 0 5))) = 5
   \<and> chained example_env 0 example_steps (13 / 9)
   \<and> follows_update_rule example_env (example_steps ! 2)
   \<and> step_step_size (example_steps ! 2) = step_size example_sgd / (1 + 1 / 2)
   \<and> step_variables_read (example_steps ! 2) = step_variables_committed (example_steps ! 1)"
proof -
  have rt: "to_variables example_env (set_params example_env m (to_params example_env m v))
              (get_params example_env (set_params example_env m (to_params example_env m v))) = v"
    for m v
    by (simp add: example_env_def)
  note inst = sgd_batch_updates [OF example_solve rt]
  have mem: "example_steps ! 2 \<in> set example_steps" by (simp add: example_steps_def)
  have run: "step_run (example_steps ! 2) = 1" by (simp add: example_steps_def)
  have mr: "max_runs example_sgd = 2" by (simp add: example_sgd_def)
  from inst have c: "chained example_env 0 example_steps (13 / 9)" by simp
  from inst mem have f: "follows_update_rule example_env (example_steps ! 2)"
    and st: "step_step_size (example_steps ! 2)
               = step_size example_sgd
                 / (1 + real (step_run (example_steps ! 2)) / real_of_int (max_runs example_sgd))"
    by blast+
  have len: "Suc 1 < length example_steps" by (simp add: example_steps_def)
  from inst len
  have "step_variables_read (example_steps ! Suc 1) = step_variables_committed (example_steps ! 1)"
    by blast
  then have r: "step_variables_read (example_steps ! 2)
                  = step_variables_committed (example_steps ! 1)"
    by (simp add: numeral_2_eq_2)
  from st have st': "step_step_size (example_steps ! 2) = step_size example_sgd / (1 + 1 / 2)"
    by (simp add: run mr)
  from example_solve rt c f st' r show ?thesis by simp
qed

lemma example_solve_without_labels:
  "solve example_env example_sgd [] [] 0 = Inl IndexError"
  by (simp add: solver_defs example_sgd_def upt_2 Let_def)

lemma example_solve_without_data:
  "solve example_env (example_sgd\<lparr>batch_size := 0\<rparr>) [] [0] 0 = Inl ValueError"
  by (simp add: solver_defs example_sgd_def upt_2 Let_def)

lemma run_batches_ok:
  assumes "\<forall>b \<in> set batches.
             fst b = Int64 \<and> list_all (\<lambda>j. j < length data \<and> j < length labels) (snd b)"
  shows "\<exists>model' latest' es.
           run_batches env i step data labels batches model latest = Inr (model', latest', es)
           \<and> (batches \<noteq> [] \<or> latest \<noteq> None \<longrightarrow> latest' \<noteq> None)"
  using assms
proof (induction batches arbitrary: model latest)
  case Nil
  show ?case by simp
next
  case (Cons b bs)
  obtain js where b: "b = (Int64, js)" using Cons.prems by (cases b) auto
  have "list_all (\<lambda>j. j < length data) js" "list_all (\<lambda>j. j < length labels) js"
    using Cons.prems b by (simp_all add: list_all_iff)
  then obtain batch batch_labels where
    t1: "take_indices data b = Inr batch" and t2: "take_indices labels b = Inr batch_labels"
    by (simp add: take_indices_def b)
  obtain model1 latest1 e where
    u: "batch_update env i step model batch batch_labels = (model1, latest1, e)"
    by (cases "batch_update env i step model batch batch_labels") auto
  from Cons.IH [of model1 "Some latest1"] Cons.prems obtain model' latest' es where
    "run_batches env i step data labels bs model1 (Some latest1) = Inr (model', latest', es)"
    and "latest' \<noteq> None"
    by auto
  with t1 t2 u show ?case by simp
qed

lemma array_split_not_empty: "array_split ary indices \<noteq> []"
  by (simp add: array_split_def asarray_def)

lemma array_split_subset:
  assumes "b \<in> set (array_split ary indices)"
  shows "set (snd b) \<subseteq> set ary" and "ary \<noteq> [] \<Longrightarrow> fst b = Int64"
proof -
  from assms obtain lo hi where b: "b = (fst (asarray ary), drop lo (take hi ary))"
    by (auto simp: array_split_def asarray_def)
  then show "set (snd b) \<subseteq> set ary"
    using set_drop_subset [of lo "take hi ary"] set_take_subset [of hi ary] by auto
  show "fst b = Int64" if "ary \<noteq> []"
    using b that by (simp add: asarray_def)
qed

lemma one_run_ok:
  assumes valid: "\<And>m i. list_all (\<lambda>j. j < length data \<and> j < length labels)
                           (shuffle env m i (length labels))"
    and permuted: "\<And>m i. length (shuffle env m i (length labels)) = length labels"
    and nonempty: "labels \<noteq> []"
  shows "\<exists>model' latest es.
           one_run env solver data labels i model = Inr (model', Some latest, es)"
proof -
  let ?shuffled = "shuffle env model i (length labels)"
  have ne: "?shuffled \<noteq> []" using permuted [of model i] nonempty by auto
  then obtain j where "j \<in> set ?shuffled" by (cases ?shuffled) auto
  then have "j < length data" using valid [of model i] by (simp add: list_all_iff)
  then have data: "data \<noteq> []" by auto
  define bs where "bs = (if batch_size solver \<le> 0 then length data else nat (batch_size solver))"
  have "bs \<noteq> 0" using data by (auto simp: bs_def)
  then obtain points where p: "py_range bs (length labels) bs = Inr points"
    by (simp add: py_range_def)
  let ?batches = "array_split ?shuffled points"
  have "\<forall>b \<in> set ?batches.
          fst b = Int64 \<and> list_all (\<lambda>j. j < length data \<and> j < length labels) (snd b)"
    using valid [of model i] array_split_subset [of _ ?shuffled points] ne
    by (fastforce simp: list_all_iff)
  from run_batches_ok [OF this, of env i "annealed_step_size solver i" model None]
  obtain model' latest' es where
    "run_batches env i (annealed_step_size solver i) data labels ?batches model None
       = Inr (model', latest', es)"
    and "latest' \<noteq> None"
    using array_split_not_empty by blast
  then show ?thesis
    using p by (auto simp: one_run_def Let_def bs_def [symmetric])
qed

lemma chained_prefix_append:
  assumes "chained env m es1 m1" and "n \<le> length es2" and "chained env m1 (take n es2) m2"
  shows "\<exists>k\<le>length (es1 @ es2). chained env m (take k (es1 @ es2)) m2"
proof -
  have "chained env m (es1 @ take n es2) m2"
    using assms(1,3) by (rule chained_append)
  then have "chained env m (take (length es1 + n) (es1 @ es2)) m2" by simp
  moreover have "length es1 + n \<le> length (es1 @ es2)" using assms(2) by simp
  ultimately show ?thesis by blast
qed

lemma runs_ok:
  assumes valid: "\<And>m i. list_all (\<lambda>j. j < length data \<and> j < length labels)
                           (shuffle env m i (length labels))"
    and permuted: "\<And>m i. length (shuffle env m i (length labels)) = length labels"
    and nonempty: "labels \<noteq> []"
  shows "\<exists>model' trace es.
           runs env solver data labels is model = Inr (model', trace, es)
           \<and> run_trace_ok (callback solver \<noteq> None) is trace
           \<and> (\<forall>ev \<in> set trace. callback_answered env solver data labels ev)
           \<and> (\<forall>ev \<in> set trace. \<forall>m. model_seen ev = Some m
                 \<longrightarrow> (\<exists>n\<le>length es. chained env model (take n es) m))
           \<and> (trace \<noteq> [] \<and> is_stop (last trace) \<longrightarrow> model_seen (last trace) = Some model')"
proof (induction "is" arbitrary: model)
  case Nil
  show ?case by simp
next
  case (Cons i rest)
  obtain model1 latest es1 where
    o: "one_run env solver data labels i model = Inr (model1, Some latest, es1)"
    using one_run_ok [OF valid permuted nonempty] by blast
  have c1: "chained env model es1 model1" using one_run_steps [OF o] by simp
  obtain model2 trace2 es2 where
    r: "runs env solver data labels rest model1 = Inr (model2, trace2, es2)"
    and t: "run_trace_ok (callback solver \<noteq> None) rest trace2"
    and a: "\<forall>ev \<in> set trace2. callback_answered env solver data labels ev"
    and s: "\<forall>ev \<in> set trace2. \<forall>m. model_seen ev = Some m
              \<longrightarrow> (\<exists>n\<le>length es2. chained env model1 (take n es2) m)"
    and l: "trace2 \<noteq> [] \<and> is_stop (last trace2) \<longrightarrow> model_seen (last trace2) = Some model2"
    using Cons.IH [of model1] by blast
  have s2: "\<exists>k\<le>length (es1 @ es2). chained env model (take k (es1 @ es2)) m"
    if "ev \<in> set trace2" "model_seen ev = Some m" for ev m
  proof -
    from s that obtain n where "n \<le> length es2" "chained env model1 (take n es2) m" by blast
    with c1 show ?thesis by (rule chained_prefix_append)
  qed
  show ?case
  proof (cases "callback solver")
    case None
    have c: "callback_after_run env solver data labels i model1 (Some latest) = Inr None"
      using None by (simp add: callback_after_run_def)
    have res: "runs env solver data labels (i # rest) model
                 = Inr (model2, Run i # trace2, es1 @ es2)"
      using o c r by simp
    have "run_trace_ok (callback solver \<noteq> None) (i # rest) (Run i # trace2)"
      using None t by simp
    moreover have "\<forall>ev \<in> set (Run i # trace2). callback_answered env solver data labels ev"
      using a by simp
    moreover have "\<forall>ev \<in> set (Run i # trace2). \<forall>m. model_seen ev = Some m
                     \<longrightarrow> (\<exists>n\<le>length (es1 @ es2). chained env model (take n (es1 @ es2)) m)"
      using s2 by auto
    moreover have "Run i # trace2 \<noteq> [] \<and> is_stop (last (Run i # trace2))
                     \<longrightarrow> model_seen (last (Run i # trace2)) = Some model2"
      using l by (cases trace2) auto
    ultimately show ?thesis using res by blast
  next
    case (Some cb)
    obtain v g where lt: "latest = (v, g)" by (cases latest)
    define state where "state =
        \<lparr>state_variables = v, state_nit = i,
         state_fun = objective env v model1 data labels,
         state_jac = Some g, state_step_size = Some (annealed_step_size solver i)\<rparr>"
    have c: "callback_after_run env solver data labels i model1 (Some latest)
               = Inr (Some (state, cb model1 state))"
      using Some lt by (simp add: callback_after_run_def state_def Let_def)
    have ans: "callback_answered env solver data labels (Callback i model1 state b)"
      if "b = cb model1 state" for b
      using Some that by (simp add: state_def)
    have here: "\<exists>k\<le>length (es1 @ es'). chained env model (take k (es1 @ es')) model1" for es'
    proof -
      have "chained env model (take (length es1) (es1 @ es')) model1" using c1 by simp
      moreover have "length es1 \<le> length (es1 @ es')" by simp
      ultimately show ?thesis by blast
    qed
    show ?thesis
    proof (cases "cb model1 state")
      case True
      have res: "runs env solver data labels (i # rest) model
                   = Inr (model1, [Run i, Callback i model1 state True], es1)"
        using o c True by simp
      have "run_trace_ok (callback solver \<noteq> None) (i # rest) [Run i, Callback i model1 state True]"
        using Some by simp
      moreover have "\<forall>ev \<in> set [Run i, Callback i model1 state True].
                       callback_answered env solver data labels ev"
        using ans [of True] True by simp
      moreover have "\<forall>ev \<in> set [Run i, Callback i model1 state True]. \<forall>m. model_seen ev = Some m
                       \<longrightarrow> (\<exists>n\<le>length es1. chained env model (take n es1) m)"
        using here [of "[]"] by auto
      moreover have "[Run i, Callback i model1 state True] \<noteq> []
                       \<and> is_stop (last [Run i, Callback i model1 state True])
                     \<longrightarrow> model_seen (last [Run i, Callback i model1 state True]) = Some model1"
        by simp
      ultimately show ?thesis using res by blast
    next
      case False
      let ?trace = "Run i # Callback i model1 state False # trace2"
      have res: "runs env solver data labels (i # rest) model = Inr (model2, ?trace, es1 @ es2)"
        using o c r False by simp
      have "run_trace_ok (callback solver \<noteq> None) (i # rest) ?trace"
        using Some t by simp
      moreover have "\<forall>ev \<in> set ?trace. callback_answered env solver data labels ev"
        using a ans [of False] False by simp
      moreover have "\<forall>ev \<in> set ?trace. \<forall>m. model_seen ev = Some m
                       \<longrightarrow> (\<exists>n\<le>length (es1 @ es2). chained env model (take n (es1 @ es2)) m)"
        using s2 here [of es2] by auto
      moreover have "?trace \<noteq> [] \<and> is_stop (last ?trace)
                       \<longrightarrow> model_seen (last ?trace) = Some model2"
        using l by (cases trace2) auto
      ultimately show ?thesis using res by blast
    qed
  qed
qed

lemma run_trace_count:
  "run_trace_ok registered is trace \<Longrightarrow> length (filter is_run trace) \<le> length is"
  by (induction registered "is" trace rule: run_trace_ok.induct) (auto split: if_splits)

lemma run_trace_early:
  "run_trace_ok registered is trace \<Longrightarrow> length (filter is_run trace) < length is
     \<Longrightarrow> registered \<and> trace \<noteq> [] \<and> is_stop (last trace)"
  by (induction registered "is" trace rule: run_trace_ok.induct) (auto split: if_splits)

lemma run_trace_checks:
  "run_trace_ok True is trace
     \<Longrightarrow> length (filter (\<lambda>e. \<not> is_run e) trace) = length (filter is_run trace)"
  by (induction True "is" trace rule: run_trace_ok.induct) (auto split: if_splits)

lemma run_trace_runs:
  "run_trace_ok registered is trace
     \<Longrightarrow> filter is_run trace = map Run (take (length (filter is_run trace)) is)"
  by (induction registered "is" trace rule: run_trace_ok.induct) (auto split: if_splits)

lemma run_trace_stop_last:
  "run_trace_ok registered is trace \<Longrightarrow> k < length trace \<Longrightarrow> is_stop (trace ! k)
     \<Longrightarrow> Suc k = length trace"
proof (induction registered "is" trace arbitrary: k rule: run_trace_ok.induct)
  case (2 i rest j j' m state answer trace)
  show ?case
  proof (cases answer)
    case True
    with 2 show ?thesis by (auto simp: nth_Cons' split: if_splits)
  next
    case False
    with 2 show ?thesis
      by (cases k; cases "k - 1") (auto simp: nth_Cons' split: if_splits)
  qed
next
  case (3 i rest j trace)
  then show ?case by (cases k) auto
qed simp_all

lemma run_trace_summary:
  assumes ok: "run_trace_ok registered [0..<n] trace"
  shows "length (filter is_run trace) \<le> n"
    and "length (filter is_run trace) < n \<Longrightarrow> registered \<and> trace \<noteq> [] \<and> is_stop (last trace)"
    and "filter is_run trace = map Run [0..<length (filter is_run trace)]"
proof -
  show c: "length (filter is_run trace) \<le> n" using run_trace_count [OF ok] by simp
  show "registered \<and> trace \<noteq> [] \<and> is_stop (last trace)" if "length (filter is_run trace) < n"
    using run_trace_early [OF ok] that by simp
  have "filter is_run trace = map Run (take (length (filter is_run trace)) [0..<n])"
    using ok by (rule run_trace_runs)
  also have "take (length (filter is_run trace)) [0..<n] = [0..<length (filter is_run trace)]"
    using c by (simp add: take_upt)
  finally show "filter is_run trace = map Run [0..<length (filter is_run trace)]" .
qed

text \<open>
  C6. With a shuffle that gives as many indices as there are labels, all of them inside the
  data and the labels, and labels that are not empty, \<open>solve\<close> returns: there is no branch
  on convergence. It performs the runs \<open>0, 1, \<dots>\<close> in order and at most \<open>max_runs\<close> of them;
  with a callback registered it asks once before the first run and once after each run;
  every answer recorded is the answer the registered callback gave to the model and the
  state of that moment, the first time the model given to \<open>solve\<close>, later the model that
  the batch steps performed until then lead to; it performs fewer than \<open>max_runs\<close> runs only
  if a callback is registered and the last event is a positive answer of it; a positive
  answer is always the last event, and the model returned is then the model the callback
  was given; and the model returned is the model all the batch steps performed lead to.
\<close>

theorem sgd_solve_returns:
  assumes valid: "\<And>m i. list_all (\<lambda>j. j < length data \<and> j < length labels)
                           (shuffle env m i (length labels))"
    and permuted: "\<And>m i. length (shuffle env m i (length labels)) = length labels"
    and nonempty: "labels \<noteq> []"
  shows "\<exists>model' trace steps.
           solve env solver data labels model = Inr (model', trace, steps)
         \<and> solve_trace_ok (callback solver \<noteq> None) (nat (max_runs solver)) trace
         \<and> length (filter is_run trace) \<le> nat (max_runs solver)
         \<and> filter is_run trace = map Run [0..<length (filter is_run trace)]
         \<and> (length (filter is_run trace) < nat (max_runs solver)
              \<longrightarrow> callback solver \<noteq> None \<and> trace \<noteq> [] \<and> is_stop (last trace))
         \<and> (callback solver \<noteq> None
              \<longrightarrow> length (filter (\<lambda>e. \<not> is_run e) trace) = length (filter is_run trace) + 1)
         \<and> (\<forall>k<length trace. is_stop (trace ! k) \<longrightarrow> Suc k = length trace)
         \<and> (\<forall>k<length trace. callback_answered env solver data labels (trace ! k))
         \<and> (callback solver \<noteq> None \<longrightarrow> model_seen (hd trace) = Some model)
         \<and> (\<forall>k<length trace. \<forall>m. model_seen (trace ! k) = Some m
              \<longrightarrow> (\<exists>n\<le>length steps. chained env model (take n steps) m))
         \<and> (trace \<noteq> [] \<and> is_stop (last trace) \<longrightarrow> model_seen (last trace) = Some model')
         \<and> chained env model steps model'"
proof -
  let ?N = "nat (max_runs solver)"
  let ?reg = "callback solver \<noteq> None"
  obtain m2 tr es where r: "runs env solver data labels [0..<?N] model = Inr (m2, tr, es)"
    and t: "run_trace_ok ?reg [0..<?N] tr"
    and a: "\<forall>ev \<in> set tr. callback_answered env solver data labels ev"
    and p: "\<forall>ev \<in> set tr. \<forall>m. model_seen ev = Some m
              \<longrightarrow> (\<exists>n\<le>length es. chained env model (take n es) m)"
    and l: "tr \<noteq> [] \<and> is_stop (last tr) \<longrightarrow> model_seen (last tr) = Some m2"
    using runs_ok [OF valid permuted nonempty] by blast
  have ch: "chained env model es m2" using runs_steps [OF r] by simp
  note f = run_trace_summary [OF t]
  have sl: "\<forall>k<length tr. is_stop (tr ! k) \<longrightarrow> Suc k = length tr"
    using run_trace_stop_last [OF t] by blast
  have a': "\<forall>k<length tr. callback_answered env solver data labels (tr ! k)"
    using a nth_mem [of _ tr] by blast
  have p': "\<forall>k<length tr. \<forall>m. model_seen (tr ! k) = Some m
              \<longrightarrow> (\<exists>n\<le>length es. chained env model (take n es) m)"
    using p nth_mem [of _ tr] by blast
  show ?thesis
  proof (cases "callback solver")
    case None
    have s: "solve env solver data labels model = Inr (m2, tr, es)"
      using None r by (simp add: solve_def)
    have ok: "solve_trace_ok ?reg ?N tr" using None t by simp
    have e: "length (filter is_run tr) < ?N
               \<longrightarrow> callback solver \<noteq> None \<and> tr \<noteq> [] \<and> is_stop (last tr)"
      using f(2) by blast
    have c: "callback solver \<noteq> None
               \<longrightarrow> length (filter (\<lambda>e. \<not> is_run e) tr) = length (filter is_run tr) + 1"
      using None by simp
    have h: "callback solver \<noteq> None \<longrightarrow> model_seen (hd tr) = Some model"
      using None by simp
    show ?thesis
      by (rule exI [of _ m2], rule exI [of _ tr], rule exI [of _ es])
        (use s ok f(1) f(3) e c sl a' h p' l ch in blast)
  next
    case (Some cb)
    define state where "state =
        \<lparr>state_variables = to_variables env model (get_params env model), state_nit = 0,
         state_fun = objective env (to_variables env model (get_params env model)) model data
           labels,
         state_jac = None, state_step_size = None\<rparr>"
    have first: "callback_answered env solver data labels (Callback 0 model state b)"
      if "b = cb model state" for b
      using Some that by (simp add: state_def)
    have start: "\<exists>n\<le>length es'. chained env model (take n es') model" for es'
      by (rule exI [of _ 0]) simp
    show ?thesis
    proof (cases "cb model state")
      case True
      let ?trace = "[Callback 0 model state True]"
      have s: "solve env solver data labels model = Inr (model, ?trace, [])"
        using Some True by (simp add: solve_def Let_def state_def)
      have ok: "solve_trace_ok ?reg ?N ?trace" using Some by simp
      have count: "length (filter is_run ?trace) \<le> ?N" by simp
      have order: "filter is_run ?trace = map Run [0..<length (filter is_run ?trace)]" by simp
      have early: "length (filter is_run ?trace) < ?N
                     \<longrightarrow> callback solver \<noteq> None \<and> ?trace \<noteq> [] \<and> is_stop (last ?trace)"
        using Some by simp
      have checks: "callback solver \<noteq> None
                      \<longrightarrow> length (filter (\<lambda>e. \<not> is_run e) ?trace)
                           = length (filter is_run ?trace) + 1"
        by simp
      have stop: "\<forall>k<length ?trace. is_stop (?trace ! k) \<longrightarrow> Suc k = length ?trace" by simp
      have answered: "\<forall>k<length ?trace. callback_answered env solver data labels (?trace ! k)"
        using first [of True] True by simp
      have h: "callback solver \<noteq> None \<longrightarrow> model_seen (hd ?trace) = Some model" by simp
      have seen: "\<forall>k<length ?trace. \<forall>m. model_seen (?trace ! k) = Some m
                    \<longrightarrow> (\<exists>n\<le>length es'. chained env model (take n es') m)" for es'
        using start [of es'] by auto
      have lst: "?trace \<noteq> [] \<and> is_stop (last ?trace) \<longrightarrow> model_seen (last ?trace) = Some model"
        by simp
      have ch0: "chained env model [] model" by simp
      show ?thesis
        by (rule exI [of _ model], rule exI [of _ ?trace], rule exI [of _ "[]"])
          (use s ok count order early checks stop answered h seen [of "[]"] lst ch0 in blast)
    next
      case False
      let ?trace = "Callback 0 model state False # tr"
      have s: "solve env solver data labels model = Inr (m2, ?trace, es)"
        using Some False r by (simp add: solve_def Let_def state_def)
      have ok: "solve_trace_ok ?reg ?N ?trace" using Some t by simp
      have checks: "length (filter (\<lambda>e. \<not> is_run e) ?trace) = length (filter is_run ?trace) + 1"
        using run_trace_checks [of "[0..<?N]" tr] t Some by simp
      have early: "callback solver \<noteq> None \<and> ?trace \<noteq> [] \<and> is_stop (last ?trace)"
        if "length (filter is_run ?trace) < ?N"
        using f(2) that by simp
      have stop: "Suc k = length ?trace" if "k < length ?trace" "is_stop (?trace ! k)" for k
        using that sl by (cases k) auto
      have count: "length (filter is_run ?trace) \<le> ?N" using f(1) by simp
      have order: "filter is_run ?trace = map Run [0..<length (filter is_run ?trace)]"
        using f(3) by simp
      have early': "length (filter is_run ?trace) < ?N
                      \<longrightarrow> callback solver \<noteq> None \<and> ?trace \<noteq> [] \<and> is_stop (last ?trace)"
        using early by blast
      have checks': "callback solver \<noteq> None
                       \<longrightarrow> length (filter (\<lambda>e. \<not> is_run e) ?trace)
                            = length (filter is_run ?trace) + 1"
        using checks by blast
      have stop': "\<forall>k<length ?trace. is_stop (?trace ! k) \<longrightarrow> Suc k = length ?trace"
        using stop by blast
      have answered: "\<forall>k<length ?trace. callback_answered env solver data labels (?trace ! k)"
      proof (intro allI impI)
        fix k assume "k < length ?trace"
        then show "callback_answered env solver data labels (?trace ! k)"
          using a' first [of False] False by (cases k) auto
      qed
      have h: "callback solver \<noteq> None \<longrightarrow> model_seen (hd ?trace) = Some model" by simp
      have seen: "\<forall>k<length ?trace. \<forall>m. model_seen (?trace ! k) = Some m
                    \<longrightarrow> (\<exists>n\<le>length es. chained env model (take n es) m)"
      proof (intro allI impI)
        fix k m assume "k < length ?trace" "model_seen (?trace ! k) = Some m"
        then show "\<exists>n\<le>length es. chained env model (take n es) m"
          using p' start [of es] by (cases k) auto
      qed
      have lst: "?trace \<noteq> [] \<and> is_stop (last ?trace) \<longrightarrow> model_seen (last ?trace) = Some m2"
        using l by (cases tr) auto
      show ?thesis
        by (rule exI [of _ m2], rule exI [of _ ?trace], rule exI [of _ es])
          (use s ok count order early' checks' stop' answered h seen lst ch in blast)
    qed
  qed
qed

theorem sgd_solve_returns_witness:
  "list_all (\<lambda>j. j < length [1, 3 :: real] \<and> j < length [0, 0 :: nat])
     (shuffle example_env 0 0 (length [0, 0 :: nat]))
   \<and> length (shuffle example_env 0 0 (length [0, 0 :: nat])) = length [0, 0 :: nat]
   \<and> [0, 0 :: nat] \<noteq> []
   \<and> callback example_sgd_stop \<noteq> None
   \<and> solve example_env example_sgd_stop [1, 3] [0, 0] 0
       = Inr (1, example_trace, take 2 example_steps)
   \<and> length (filter is_run example_trace) < nat (max_runs example_sgd_stop)
   \<and> is_stop (last example_trace)
   \<and> callback_answered example_env example_sgd_stop [1, 3] [0, 0] (example_trace ! 2)
   \<and> model_seen (hd example_trace) = Some 0
   \<and> model_seen (last example_trace) = Some 1
   \<and> chained example_env 0 (take 2 example_steps) 1"
proof -
  have valid: "list_all (\<lambda>j. j < length [1, 3 :: real] \<and> j < length [0, 0 :: nat])
                 (shuffle example_env m i (length [0, 0 :: nat]))" for m i
    by (simp add: example_env_def upt_2)
  have permuted: "length (shuffle example_env m i (length [0, 0 :: nat])) = length [0, 0 :: nat]"
    for m i
    by (simp add: example_env_def)
  have nonempty: "[0, 0 :: nat] \<noteq> []" by simp
  have reg: "callback example_sgd_stop \<noteq> None" by (simp add: example_sgd_stop_def)
  have n: "length (filter is_run example_trace) < nat (max_runs example_sgd_stop)"
    by (simp add: example_sgd_stop_def example_trace_def)
  have len: "2 < length example_trace" by (simp add: example_trace_def)
  from sgd_solve_returns [of "[1, 3]" "[0, 0]" example_env example_sgd_stop 0,
      OF valid permuted nonempty]
  obtain model' trace steps where
    s: "solve example_env example_sgd_stop [1, 3] [0, 0] 0 = Inr (model', trace, steps)"
    and e: "length (filter is_run trace) < nat (max_runs example_sgd_stop)
              \<longrightarrow> callback example_sgd_stop \<noteq> None \<and> trace \<noteq> [] \<and> is_stop (last trace)"
    and a: "\<forall>k<length trace. callback_answered example_env example_sgd_stop [1, 3] [0, 0]
              (trace ! k)"
    and h: "callback example_sgd_stop \<noteq> None \<longrightarrow> model_seen (hd trace) = Some 0"
    and l: "trace \<noteq> [] \<and> is_stop (last trace) \<longrightarrow> model_seen (last trace) = Some model'"
    and c: "chained example_env 0 steps model'"
    by blast
  from s example_solve_stop have eq: "model' = 1" "trace = example_trace"
    "steps = take 2 example_steps"
    by simp_all
  from e n have st: "example_trace \<noteq> [] \<and> is_stop (last example_trace)"
    unfolding eq by blast
  from a len have an: "callback_answered example_env example_sgd_stop [1, 3] [0, 0]
                         (example_trace ! 2)"
    unfolding eq by blast
  from h reg have hd: "model_seen (hd example_trace) = Some 0" unfolding eq by blast
  from l st have ls: "model_seen (last example_trace) = Some 1" unfolding eq by blast
  from c have ch: "chained example_env 0 (take 2 example_steps) 1" unfolding eq .
  from valid [of 0 0] permuted [of 0 0] nonempty reg example_solve_stop n st an hd ls ch
  show ?thesis by blast
qed

subsection \<open>Which arrays are written\<close>

lemma frame_iff: "frame h h' \<longleftrightarrow> (\<exists>ext. h' = h @ ext)"
proof
  assume "frame h h'"
  then have "take (length h) h' = h" by (simp add: frame_def)
  then have "h' = h @ drop (length h) h'" by (metis append_take_drop_id)
  then show "\<exists>ext. h' = h @ ext" ..
next
  assume "\<exists>ext. h' = h @ ext"
  then show "frame h h'" by (auto simp: frame_def)
qed

lemma frame_refl: "frame h h"
  by (simp add: frame_def)

lemma frame_trans: "frame h h1 \<Longrightarrow> frame h1 h2 \<Longrightarrow> frame h h2"
  by (auto simp: frame_iff)

lemma frame_length: "frame h h' \<Longrightarrow> length h \<le> length h'"
  by (simp add: frame_def)

lemma frame_cell_at: "frame h h' \<Longrightarrow> a < length h \<Longrightarrow> cell_at h' a = cell_at h a"
  by (auto simp: frame_iff cell_at_def nth_append)

lemma frame_alloc: "alloc c h = (r, h') \<Longrightarrow> frame h h' \<and> base r = length h"
  by (auto simp: alloc_def frame_iff)

lemma frame_update_fresh:
  assumes "frame h0 h" "length h0 \<le> a"
  shows "frame h0 (h[a := c])"
proof -
  from assms(1) obtain ext where "h = h0 @ ext" by (auto simp: frame_iff)
  then have "h[a := c] = h0 @ ext[a - length h0 := c]"
    using assms(2) by (simp add: list_update_append)
  then show ?thesis by (auto simp: frame_iff)
qed

lemma frame_setitem_isnan_zero:
  assumes "frame h0 h" "length h0 \<le> base r"
  shows "frame h0 (setitem_isnan_zero r h)"
proof (cases r)
  case (Whole a)
  then show ?thesis using assms by (simp add: frame_update_fresh)
next
  case (Row a i)
  then show ?thesis using assms by (simp add: frame_update_fresh)
qed

lemma frame_setitem_columns:
  "frame h0 h \<Longrightarrow> length h0 \<le> base r \<Longrightarrow> frame h0 (setitem_columns r s e B h)"
  by (simp add: setitem_columns_def frame_update_fresh)

lemma frame_metric:
  assumes "adaptive_squared_nan_euclidean_heap sample prototype lambda_matrix h = (d, h')"
  shows "frame h h'"
proof -
  obtain r h1 where a: "alloc (Vec (map2 fsub (read_vec h sample) (read_vec h prototype))) h
                          = (r, h1)"
    by (simp add: alloc_def)
  have h': "h' = setitem_isnan_zero r h1"
    using assms a by (simp add: adaptive_squared_nan_euclidean_heap_def Let_def)
  have "frame h h1" and "base r = length h" using a by (simp_all add: frame_alloc)
  then show ?thesis unfolding h' by (intro frame_setitem_isnan_zero) simp_all
qed

lemma alloc_eq: "alloc c h = (Whole (length h), h @ [c])"
  by (simp add: alloc_def)

lemma frame_append: "frame h0 h \<Longrightarrow> frame h0 (h @ ext)"
  by (auto simp: frame_iff)

lemma frame_prototype_gradient:
  assumes "prototype_gradient_heap data prototype omega h = (r, h')"
  shows "frame h h'"
proof -
  define c1 :: "'a cell" where "c1 = Mat ((read_mat h data)\<lparr>rows :=
      map (\<lambda>x. map2 fsub x (read_vec h prototype)) (rows (read_mat h data))\<rparr>)"
  define h1 where "h1 = h @ [c1]"
  define c2 :: "'a cell" where "c2 = Mat ((read_mat h1 (Whole (length h)))\<lparr>rows :=
      map (map (fmul (Fin (- 2)))) (rows (read_mat h1 (Whole (length h))))\<rparr>)"
  define h2 where "h2 = h1 @ [c2]"
  define h3 where "h3 = setitem_isnan_zero (Whole (length h1)) h2"
  define h4 where "h4 = h3 @ [Mat (lambda_of (read_mat h3 omega))]"
  have "h' = h4 @ [Mat (matmul (read_mat h4 (Whole (length h1))) (read_mat h4 (Whole (length h3))))]"
    using assms
    unfolding prototype_gradient_heap_def alloc_eq Let_def prod.case
      c1_def [symmetric] h1_def [symmetric] c2_def [symmetric] h2_def [symmetric]
      h3_def [symmetric] h4_def [symmetric]
    by simp
  moreover have "frame h h3"
    unfolding h3_def h2_def h1_def
    by (intro frame_setitem_isnan_zero frame_append frame_refl) simp
  ultimately show ?thesis
    unfolding h4_def by (simp add: frame_append)
qed

lemma frame_omega_gradient:
  assumes "omega_gradient_heap data prototype omega h = (r, h')"
  shows "frame h h'"
proof -
  define c1 :: "'a cell" where "c1 = Mat ((read_mat h data)\<lparr>rows :=
      map (\<lambda>x. map2 fsub x (read_vec h prototype)) (rows (read_mat h data))\<rparr>)"
  define h2 where "h2 = setitem_isnan_zero (Whole (length h)) (h @ [c1])"
  define h3 where "h3 = h2 @ [Mat (matmul (read_mat h2 omega)
      (transpose_nd (read_mat h2 (Whole (length h)))))]"
  have "\<exists>c. h' = h3 @ [c]"
    using assms
    unfolding omega_gradient_heap_def alloc_eq Let_def prod.case
      c1_def [symmetric] h2_def [symmetric] h3_def [symmetric]
    by auto
  moreover have "frame h h2"
    unfolding h2_def
    by (intro frame_setitem_isnan_zero frame_append frame_refl) simp
  ultimately show ?thesis
    unfolding h3_def by (auto simp: frame_append)
qed

lemma frame_ASNE_gradient:
  assumes "ASNE_gradient_heap data model i h = (r, h')"
  shows "frame h h'"
proof -
  define n where "n = length h"
  define h1 where "h1 = h @ [Mat (zeros (shape0 (read_mat h data))
      (size_nd (read_mat h (prototypes_ref model)) + size_nd (read_mat h (omega_ref model))))
      :: 'a cell]"
  have f1: "frame h h1" unfolding h1_def by (intro frame_append frame_refl)
  show ?thesis
  proof (cases "shape0 (read_mat h1 (prototypes_ref model)) \<le> i")
    case True
    then have "h' = h1"
      using assms
      unfolding ASNE_gradient_heap_def alloc_eq Let_def prod.case h1_def [symmetric]
      by simp
    then show ?thesis using f1 by simp
  next
    case False
    let ?w = "Row (base (prototypes_ref model)) i"
    obtain pg h2 where p: "prototype_gradient_heap data ?w (omega_ref model) h1 = (pg, h2)"
      by (cases "prototype_gradient_heap data ?w (omega_ref model) h1")
    let ?h3 = "setitem_columns (Whole n) (i * shape1 (read_mat h data))
        (i * shape1 (read_mat h data) + shape1 (read_mat h data)) (rows (read_mat h2 pg)) h2"
    obtain og h4 where og: "omega_gradient_heap data ?w (omega_ref model) ?h3 = (og, h4)"
      by (cases "omega_gradient_heap data ?w (omega_ref model) ?h3")
    have h': "\<exists>s e B. h' = setitem_columns (Whole n) s e B h4"
      using assms False p og
      unfolding ASNE_gradient_heap_def alloc_eq Let_def prod.case h1_def [symmetric]
        n_def [symmetric]
      by auto
    have f2: "frame h h2" using f1 frame_prototype_gradient [OF p] by (rule frame_trans)
    have f3: "frame h ?h3"
      using f2 by (intro frame_setitem_columns) (simp_all add: n_def)
    have f4: "frame h h4" using f3 frame_omega_gradient [OF og] by (rule frame_trans)
    from h' obtain s e B where "h' = setitem_columns (Whole n) s e B h4" by blast
    then show ?thesis
      using f4 by (simp add: frame_setitem_columns n_def)
  qed
qed

lemma frame_metric_row:
  assumes "\<And>x y h d h'. metric x y h = (d, h') \<Longrightarrow> frame h h'"
  shows "metric_row metric x ys h = (ds, h') \<Longrightarrow> frame h h'"
proof (induction ys arbitrary: h ds h')
  case Nil
  then show ?case by (simp add: frame_refl)
next
  case (Cons y ys)
  obtain d h1 where m: "metric x y h = (d, h1)" by (cases "metric x y h")
  obtain ds' h2 where r: "metric_row metric x ys h1 = (ds', h2)"
    by (cases "metric_row metric x ys h1")
  have "h' = h2" using Cons.prems m r by simp
  then show ?case using assms [OF m] Cons.IH [OF r] frame_trans by blast
qed

lemma frame_metric_rows:
  assumes "\<And>x y h d h'. metric x y h = (d, h') \<Longrightarrow> frame h h'"
  shows "metric_rows metric xs ys h = (rs, h') \<Longrightarrow> frame h h'"
proof (induction xs arbitrary: h rs h')
  case Nil
  then show ?case by (simp add: frame_refl)
next
  case (Cons x xs)
  obtain r h1 where m: "metric_row metric x ys h = (r, h1)"
    by (cases "metric_row metric x ys h")
  obtain rs' h2 where r: "metric_rows metric xs ys h1 = (rs', h2)"
    by (cases "metric_rows metric xs ys h1")
  have "h' = h2" using Cons.prems m r by simp
  moreover have "frame h h1"
  proof (rule frame_metric_row)
    show "\<And>x y h d h'. metric x y h = (d, h') \<Longrightarrow> frame h h'" by (rule assms)
    show "metric_row metric x ys h = (r, h1)" by (rule m)
  qed
  ultimately show ?case
    using Cons.IH [OF r] frame_trans by blast
qed

lemma frame_pairwise_distances:
  assumes "\<And>x y h d h'. metric x y h = (d, h') \<Longrightarrow> frame h h'"
    and "pairwise_distances_heap X Y metric h = (r, h')"
  shows "frame h h'"
proof (cases "check_array_allow_nan (read_mat h X) \<and> check_array_allow_nan (read_mat h Y)
         \<and> shape1 (read_mat h X) = shape1 (read_mat h Y)")
  case False
  then have "h' = h" using assms(2) by (auto simp: pairwise_distances_heap_def)
  then show ?thesis by (simp add: frame_refl)
next
  case True
  obtain rs h1 where m: "metric_rows metric (map (Row (base X)) [0..<shape0 (read_mat h X)])
      (map (Row (base Y)) [0..<shape0 (read_mat h Y)]) h = (rs, h1)"
    by (cases "metric_rows metric (map (Row (base X)) [0..<shape0 (read_mat h X)])
      (map (Row (base Y)) [0..<shape0 (read_mat h Y)]) h")
  have "\<exists>c. h' = h1 @ [c]"
    using assms(2) True m
    unfolding pairwise_distances_heap_def alloc_eq Let_def prod.case by auto
  moreover have "frame h h1"
  proof (rule frame_metric_rows)
    show "\<And>x y h d h'. metric x y h = (d, h') \<Longrightarrow> frame h h'" by (rule assms(1))
    show "metric_rows metric (map (Row (base X)) [0..<shape0 (read_mat h X)])
      (map (Row (base Y)) [0..<shape0 (read_mat h Y)]) h = (rs, h1)" by (rule m)
  qed
  ultimately show ?thesis
    by (auto simp: frame_append)
qed

lemma frame_ASNE_call:
  assumes "ASNE_call_heap data model h = (r, h')"
  shows "frame h h'"
proof -
  define h1 where "h1 = h @ [Mat (lambda_of (read_mat h (omega_ref model))) :: 'a cell]"
  let ?metric = "\<lambda>sample prototype.
      adaptive_squared_nan_euclidean_heap sample prototype (Whole (length h))"
  obtain D h2 where p: "pairwise_distances_heap data (prototypes_ref model) ?metric h1 = (D, h2)"
    by (cases "pairwise_distances_heap data (prototypes_ref model) ?metric h1")
  have f2: "frame h1 h2"
    using p by (rule frame_pairwise_distances [rotated]) (rule frame_metric)
  have "h' = h2 \<or> (\<exists>c. h' = h2 @ [c])"
    using assms p
    unfolding ASNE_call_heap_def alloc_eq Let_def prod.case h1_def [symmetric]
    by (cases D) auto
  moreover have "frame h h2"
    using f2 unfolding h1_def by (auto simp: frame_iff)
  ultimately show ?thesis by (auto simp: frame_append)
qed

lemma frame_compute_distance:
  assumes "\<And>d m h r h'. call_heap dobj d m h = (r, h') \<Longrightarrow> frame h h'"
    and "compute_distance_heap dobj data labels model h = (r, h')"
  shows "frame h h'"
proof -
  obtain D h1 where c: "call_heap dobj data model h = (D, h1)"
    by (cases "call_heap dobj data model h")
  have "h' = h1"
    using assms(2) c
    by (cases D) (auto simp: compute_distance_heap_def Let_def split: sum.splits)
  then show ?thesis using assms(1) [OF c] by simp
qed

lemma frame_GLO_call:
  assumes "\<And>d m h r h'. call_heap dobj d m h = (r, h') \<Longrightarrow> frame h h'"
    and "GLO_call_heap dobj strat model data labels h = (r, h')"
  shows "frame h h'"
proof -
  obtain c h1 where c: "compute_distance_heap dobj data labels model h = (c, h1)"
    by (cases "compute_distance_heap dobj data labels model h")
  have "h' = h1"
    using assms(2) c by (cases c) (auto simp: GLO_call_heap_def)
  moreover have "frame h h1"
  proof (rule frame_compute_distance)
    show "\<And>d m h r h'. call_heap dobj d m h = (r, h') \<Longrightarrow> frame h h'" by (rule assms(1))
    show "compute_distance_heap dobj data labels model h = (c, h1)" by (rule c)
  qed
  ultimately show ?thesis by simp
qed

lemma frame_add_partial_gradient:
  "frame h0 h \<Longrightarrow> length h0 \<le> base buffer
     \<Longrightarrow> frame h0 (add_partial_gradient_heap model buffer contribution i h)"
  by (simp add: add_partial_gradient_heap_def frame_update_fresh)

lemma frame_winner_update:
  assumes dg: "\<And>d m i h r h'. gradient_heap dobj d m i h = (r, h') \<Longrightarrow> frame h h'"
    and u: "winner_update_heap dobj strat model data ds dd score i_dist b i buffer h = (r, h')"
    and f: "frame h0 h" and fresh: "length h0 \<le> base buffer"
  shows "frame h0 h'"
proof (cases "list_ex id (map (\<lambda>j. i = j) i_dist)")
  case False
  then have "h' = h" using u by (simp add: winner_update_heap_def)
  then show ?thesis using f by simp
next
  case True
  define h1 where "h1 = h @ [Mat (select_rows (map (\<lambda>j. i = j) i_dist) (read_mat h data))]"
  obtain g h2 where g: "gradient_heap dobj (Whole (length h)) model i h1 = (g, h2)"
    by (cases "gradient_heap dobj (Whole (length h)) model i h1")
  have f2: "frame h0 h2"
  proof -
    have "frame h0 h1" using f unfolding h1_def by (rule frame_append)
    moreover have "frame h1 h2" using g by (rule dg)
    ultimately show ?thesis by (rule frame_trans)
  qed
  have "h' = h2 \<or> (\<exists>c. h' = add_partial_gradient_heap model buffer c i h2)"
    using u True g
    unfolding winner_update_heap_def alloc_eq Let_def prod.case h1_def [symmetric]
    by (cases g) auto
  then show ?thesis
    using f2 fresh by (auto simp: frame_add_partial_gradient)
qed

lemma frame_gradient_loop:
  assumes dg: "\<And>d m i h r h'. gradient_heap dobj d m i h = (r, h') \<Longrightarrow> frame h h'"
    and fresh: "length h0 \<le> base buffer"
  shows "gradient_loop_heap dobj strat model data ds dd score i_same i_diff ps buffer h = (r, h')
           \<Longrightarrow> frame h0 h \<Longrightarrow> frame h0 h'"
proof (induction ps arbitrary: h r h')
  case Nil
  then show ?case by simp
next
  case (Cons p ps)
  obtain r1 h1 where u1:
    "winner_update_heap dobj strat model data ds dd score i_same True p buffer h = (r1, h1)"
    by (cases "winner_update_heap dobj strat model data ds dd score i_same True p buffer h")
  have f1: "frame h0 h1"
  proof (rule frame_winner_update)
    show "\<And>d m i h r h'. gradient_heap dobj d m i h = (r, h') \<Longrightarrow> frame h h'" by (rule dg)
    show "winner_update_heap dobj strat model data ds dd score i_same True p buffer h = (r1, h1)"
      by (rule u1)
    show "frame h0 h" by (rule Cons.prems(2))
    show "length h0 \<le> base buffer" by (rule fresh)
  qed
  show ?case
  proof (cases r1)
    case (Inl e)
    then have "h' = h1" using Cons.prems(1) u1 by simp
    then show ?thesis using f1 by simp
  next
    case (Inr u)
    obtain r2 h2 where u2:
      "winner_update_heap dobj strat model data ds dd score i_diff False p buffer h1 = (r2, h2)"
      by (cases "winner_update_heap dobj strat model data ds dd score i_diff False p buffer h1")
    have f2: "frame h0 h2"
    proof (rule frame_winner_update)
      show "\<And>d m i h r h'. gradient_heap dobj d m i h = (r, h') \<Longrightarrow> frame h h'" by (rule dg)
      show "winner_update_heap dobj strat model data ds dd score i_diff False p buffer h1
              = (r2, h2)"
        by (rule u2)
      show "frame h0 h1" by (rule f1)
      show "length h0 \<le> base buffer" by (rule fresh)
    qed
    show ?thesis
    proof (cases r2)
      case (Inl e)
      then have "h' = h2" using Cons.prems(1) u1 u2 Inr by simp
      then show ?thesis using f2 by simp
    next
      case inr2: (Inr u')
      then have "gradient_loop_heap dobj strat model data ds dd score i_same i_diff ps buffer h2
                   = (r, h')"
        using Cons.prems(1) u1 u2 Inr by simp
      then show ?thesis using f2 by (rule Cons.IH)
    qed
  qed
qed

lemma frame_GLO_gradient:
  assumes dc: "\<And>d m h r h'. call_heap dobj d m h = (r, h') \<Longrightarrow> frame h h'"
    and dg: "\<And>d m i h r h'. gradient_heap dobj d m i h = (r, h') \<Longrightarrow> frame h h'"
    and g: "GLO_gradient_heap dobj strat model data labels h = (r, h')"
  shows "frame h h'"
proof -
  obtain c h1 where c: "compute_distance_heap dobj data labels model h = (c, h1)"
    by (cases "compute_distance_heap dobj data labels model h")
  have f1: "frame h h1"
  proof (rule frame_compute_distance)
    show "\<And>d m h r h'. call_heap dobj d m h = (r, h') \<Longrightarrow> frame h h'" by (rule dc)
    show "compute_distance_heap dobj data labels model h = (c, h1)" by (rule c)
  qed
  show ?thesis
  proof (cases c)
    case (Inl e)
    then have "h' = h1" using g c by (simp add: GLO_gradient_heap_def)
    then show ?thesis using f1 by simp
  next
    case (Inr t)
    obtain ds dd i_same i_diff where t: "t = (ds, dd, i_same, i_diff)" by (cases t) auto
    let ?h2 = "h1 @ [Vec (replicate (length (get_variables (read_model h1 model))) (Fin 0))]"
    obtain r3 h3 where l: "gradient_loop_heap dobj strat model data ds dd
        (discriminant_fn strat ds dd) i_same i_diff
        [0..<length (model_prototypes_labels (read_model ?h2 model))] (Whole (length h1)) ?h2
        = (r3, h3)"
      by (cases "gradient_loop_heap dobj strat model data ds dd
        (discriminant_fn strat ds dd) i_same i_diff
        [0..<length (model_prototypes_labels (read_model ?h2 model))] (Whole (length h1)) ?h2")
    have "h' = h3"
      using g c Inr t l
      unfolding GLO_gradient_heap_def alloc_eq Let_def prod.case
      by (cases r3) auto
    moreover have "frame h h3"
    proof (rule frame_gradient_loop)
      show "\<And>d m i h r h'. gradient_heap dobj d m i h = (r, h') \<Longrightarrow> frame h h'" by (rule dg)
      show "length h \<le> base (Whole (length h1))" using frame_length [OF f1] by simp
      show "gradient_loop_heap dobj strat model data ds dd
        (discriminant_fn strat ds dd) i_same i_diff
        [0..<length (model_prototypes_labels (read_model ?h2 model))] (Whole (length h1)) ?h2
        = (r3, h3)" by (rule l)
      show "frame h ?h2" using f1 by (rule frame_append)
    qed
    ultimately show ?thesis by simp
  qed
qed

lemma frame_reads:
  assumes "frame h h'" "base r < length h"
  shows "read_mat h' r = read_mat h r" and "read_vec h' r = read_vec h r"
    and "cell_at h' (base r) = cell_at h (base r)"
  using frame_cell_at [OF assms] by (cases r; simp)+

lemma masking_an_input_breaks_the_frame:
  "\<not> frame [Vec [NaN]] (setitem_isnan_zero (Whole 0) [Vec [NaN]])"
  by (simp add: frame_def cell_at_def nan_to_zero_def)

text \<open>
  C9. The distance and its gradient leave every array that exists before the call as it
  is, and so do \<open>__call__\<close> and \<open>gradient\<close> of the objective when the distance object
  of the model does: the store after the computation agrees with the store before it on all
  old cells, so the data, the labels, \<open>prototypes_\<close> and \<open>omega_\<close> read the same through
  any reference. The NaN masking and the slice assignments write only arrays allocated
  during the call.
\<close>

theorem inputs_unchanged:
  "frame h (snd (ASNE_call_heap data model h))
   \<and> frame h (snd (ASNE_gradient_heap data model i h))
   \<and> ((\<forall>d m h0. frame h0 (snd (call_heap dobj d m h0)))
        \<and> (\<forall>d m j h0. frame h0 (snd (gradient_heap dobj d m j h0)))
       \<longrightarrow> frame h (snd (GLO_call_heap dobj strat model data labels h))
           \<and> frame h (snd (GLO_gradient_heap dobj strat model data labels h)))
   \<and> (\<forall>h' r. frame h h' \<and> base r < length h
         \<longrightarrow> cell_at h' (base r) = cell_at h (base r)
             \<and> read_mat h' r = read_mat h r \<and> read_vec h' r = read_vec h r)"
proof -
  have c: "frame h (snd (ASNE_call_heap data model h))"
    by (rule frame_ASNE_call [of data model h "fst (ASNE_call_heap data model h)"]) simp
  have g: "frame h (snd (ASNE_gradient_heap data model i h))"
    by (rule frame_ASNE_gradient [of data model i h "fst (ASNE_gradient_heap data model i h)"])
       simp
  have o: "frame h (snd (GLO_call_heap dobj strat model data labels h))
           \<and> frame h (snd (GLO_gradient_heap dobj strat model data labels h))"
    if dc: "\<forall>d m h0. frame h0 (snd (call_heap dobj d m h0))"
      and dg: "\<forall>d m j h0. frame h0 (snd (gradient_heap dobj d m j h0))"
  proof
    have dc': "frame h0 h1" if "call_heap dobj d m h0 = (r, h1)" for d m h0 r h1
      using dc [rule_format, of h0 d m] that by simp
    have dg': "frame h0 h1" if "gradient_heap dobj d m j h0 = (r, h1)" for d m j h0 r h1
      using dg [rule_format, of h0 d m j] that by simp
    show "frame h (snd (GLO_call_heap dobj strat model data labels h))"
    proof (rule frame_GLO_call)
      show "\<And>d m h r h'. call_heap dobj d m h = (r, h') \<Longrightarrow> frame h h'" by (rule dc')
      show "GLO_call_heap dobj strat model data labels h
              = (fst (GLO_call_heap dobj strat model data labels h),
                 snd (GLO_call_heap dobj strat model data labels h))"
        by simp
    qed
    show "frame h (snd (GLO_gradient_heap dobj strat model data labels h))"
    proof (rule frame_GLO_gradient)
      show "\<And>d m h r h'. call_heap dobj d m h = (r, h') \<Longrightarrow> frame h h'" by (rule dc')
      show "\<And>d m i h r h'. gradient_heap dobj d m i h = (r, h') \<Longrightarrow> frame h h'" by (rule dg')
      show "GLO_gradient_heap dobj strat model data labels h
              = (fst (GLO_gradient_heap dobj strat model data labels h),
                 snd (GLO_gradient_heap dobj strat model data labels h))"
        by simp
    qed
  qed
  have r: "cell_at h' (base r) = cell_at h (base r)
           \<and> read_mat h' r = read_mat h r \<and> read_vec h' r = read_vec h r"
    if "frame h h'" "base r < length h" for h' r
    using frame_reads [OF that] by simp
  show ?thesis using c g o r by blast
qed

theorem inputs_unchanged_witness:
  "(\<forall>d m h0. frame h0 (snd (call_heap (ASNE_object :: nat distance_object) d m h0)))
   \<and> (\<forall>d m j h0. frame h0 (snd (gradient_heap (ASNE_object :: nat distance_object) d m j h0)))
   \<and> base (Whole 0) < length example_heap
   \<and> take 5 (snd (ASNE_call_heap (Whole 0) example_model_refs example_heap)) = example_heap
   \<and> take 5 (snd (ASNE_gradient_heap (Whole 0) example_model_refs 1 example_heap)) = example_heap
   \<and> take 5 (snd (GLO_call_heap ASNE_object example_strategies example_model_refs
                    (Whole 0) (Whole 1) example_heap)) = example_heap
   \<and> take 5 (snd (GLO_gradient_heap ASNE_object example_strategies example_model_refs
                    (Whole 0) (Whole 1) example_heap)) = example_heap
   \<and> read_mat (snd (GLO_gradient_heap ASNE_object example_strategies example_model_refs
                      (Whole 0) (Whole 1) example_heap)) (Whole 0)
       = mk_ndarray 2 1 [[Fin 2], [NaN]]"
proof -
  have "frame h0 (snd (ASNE_call_heap d m h0))" for d m and h0 :: "nat heap"
    by (rule frame_ASNE_call [of d m h0 "fst (ASNE_call_heap d m h0)"]) simp
  then have dc: "\<forall>d m h0. frame h0 (snd (call_heap (ASNE_object :: nat distance_object) d m h0))"
    by (simp add: ASNE_object_def)
  have "frame h0 (snd (ASNE_gradient_heap d m j h0))" for d m j and h0 :: "nat heap"
    by (rule frame_ASNE_gradient [of d m j h0 "fst (ASNE_gradient_heap d m j h0)"]) simp
  then have dg: "\<forall>d m j h0.
              frame h0 (snd (gradient_heap (ASNE_object :: nat distance_object) d m j h0))"
    by (simp add: ASNE_object_def)
  have len: "length example_heap = 5" by (simp add: example_heap_def)
  have b: "base (Whole 0) < length example_heap" by (simp add: len)
  note inst = inputs_unchanged [of example_heap "Whole 0" example_model_refs 1 ASNE_object
      example_strategies "Whole 1"]
  let ?hg = "snd (GLO_gradient_heap ASNE_object example_strategies example_model_refs
      (Whole 0) (Whole 1) example_heap)"
  from inst have f1: "frame example_heap (snd (ASNE_call_heap (Whole 0) example_model_refs
      example_heap))" by blast
  from inst have f2: "frame example_heap (snd (ASNE_gradient_heap (Whole 0) example_model_refs 1
      example_heap))" by blast
  from inst dc dg have f3: "frame example_heap (snd (GLO_call_heap ASNE_object
      example_strategies example_model_refs (Whole 0) (Whole 1) example_heap))" by blast
  from inst dc dg have f4: "frame example_heap ?hg" by blast
  from inst f4 b have "read_mat ?hg (Whole 0) = read_mat example_heap (Whole 0)" by blast
  then have rd: "read_mat ?hg (Whole 0) = mk_ndarray 2 1 [[Fin 2], [NaN]]"
    by (simp add: example_heap_def cell_at_def)
  from f1 f2 f3 f4 dc dg b rd show ?thesis
    unfolding frame_def len by blast
qed

end
